theory Spec2Isabelle
  imports Complex_Main "HOL-Library.AList"
begin

section \<open>JavaScript values\<close>

text \<open>
  Request bodies and stored documents are JSON. An object is an association list in key
  order; a JavaScript value that may be \<^verbatim>\<open>undefined\<close> is a \<open>json option\<close>, with
  \<open>None\<close> for \<^verbatim>\<open>undefined\<close>. A key whose value is \<^verbatim>\<open>undefined\<close> is left out of an
  object: it reads as \<^verbatim>\<open>undefined\<close> and \<^verbatim>\<open>JSON.stringify\<close> drops it, so the two cannot
  be told apart through the HTTP interface.
\<close>

datatype json =
    JNull
  | JBool bool
  | JNum rat
  | JStr string
  | JArr "json list"
  | JObj "(string \<times> json) list"

type_synonym doc = "(string \<times> json) list"
type_synonym jsval = "json option"

text \<open>Truthiness, as \<^verbatim>\<open>||\<close>, \<^verbatim>\<open>&&\<close>, \<^verbatim>\<open>!\<close> and \<^verbatim>\<open>?:\<close> test it.\<close>

fun truthy :: "jsval \<Rightarrow> bool" where
  "truthy None = False"
| "truthy (Some JNull) = False"
| "truthy (Some (JBool b)) = b"
| "truthy (Some (JNum n)) = (if n = 0 then False else True)"
| "truthy (Some (JStr s)) = (if s = [] then False else True)"
| "truthy (Some (JArr xs)) = True"
| "truthy (Some (JObj kvs)) = True"

definition js_or :: "jsval \<Rightarrow> jsval \<Rightarrow> jsval" where
  "js_or a b = (if truthy a then a else b)"

fun isArray :: "jsval \<Rightarrow> bool" where
  "isArray (Some (JArr xs)) = True"
| "isArray v = False"

text \<open>
  The rendering of a natural number in a radix from 2 to 36
  (\<^verbatim>\<open>Number.prototype.toString\<close>); the server uses radix 36, array indices are decimal.
\<close>

definition digit_char :: "nat \<Rightarrow> char" where
  "digit_char d = ''0123456789abcdefghijklmnopqrstuvwxyz'' ! (d mod 36)"

function toString_radix :: "nat \<Rightarrow> nat \<Rightarrow> string" where
  "toString_radix b n =
     (if b < 2 \<or> n < b then [digit_char n]
      else toString_radix b (n div b) @ [digit_char (n mod b)])"
  by pat_completeness auto
termination
  by (relation "measure (\<lambda>(b, n). n)") auto

declare toString_radix.simps [simp del]

text \<open>
  The own enumerable properties of a value, in enumeration order: the members of an
  object, the indices of an array. \<^verbatim>\<open>express.json()\<close> in its default strict mode
  delivers objects and arrays only, so other values have no properties that matter here.
\<close>

fun fields_of :: "json \<Rightarrow> doc" where
  "fields_of (JObj kvs) = kvs"
| "fields_of (JArr xs) = zip (map (toString_radix 10) [0..<length xs]) xs"
| "fields_of v = []"

text \<open>
  Reading a property by name. Every property name the server reads is a fixed
  identifier, none of them \<^verbatim>\<open>length\<close> or an index.
\<close>

definition field :: "json \<Rightarrow> string \<Rightarrow> jsval" where
  "field v k = map_of (fields_of v) k"

text \<open>An object literal: the properties in order, those with an undefined value left out.\<close>

fun object :: "(string \<times> jsval) list \<Rightarrow> doc" where
  "object [] = []"
| "object ((k, None) # kvs) = object kvs"
| "object ((k, Some v) # kvs) = (k, v) # object kvs"

datatype error =
    InvalidFieldName
  | UniqueViolated
  | IdChanged
  | TypeError
  | Unmodelled

section \<open>The datastore\<close>

text \<open>
  The three collections are \<^verbatim>\<open>nedb-promises\<close> datastores. The library is not part of the
  repository; its operations are modelled after its documentation, for the calls the
  server makes: \<^verbatim>\<open>insert\<close>, \<^verbatim>\<open>update\<close> with \<^verbatim>\<open>$set\<close>, \<^verbatim>\<open>findOne\<close>, \<^verbatim>\<open>remove\<close>, \<^verbatim>\<open>count\<close>.
  A collection is the list of its documents in the order in which they were inserted,
  which is the order of the file the datastore appends to. A query that does not go by
  \<^verbatim>\<open>_id\<close> meets the documents in the order of the index on \<^verbatim>\<open>_id\<close> (\<open>getAll\<close> below), not
  in this order. A rejected promise is an \<open>error\<close>.
\<close>

text \<open>Field names may not contain a dot nor start with a dollar sign (a few reserved names apart).\<close>

fun is_num :: "json \<Rightarrow> bool" where
  "is_num (JNum n) = True"
| "is_num v = False"

definition checkKey :: "string \<Rightarrow> json \<Rightarrow> bool" where
  "checkKey k v =
     ((case k of
         [] \<Rightarrow> True
       | c # cs \<Rightarrow>
           (if c = CHR ''$''
            then (k = ''$$date'' \<and> is_num v) \<or> (k = ''$$deleted'' \<and> v = JBool True)
                 \<or> k = ''$$indexCreated'' \<or> k = ''$$indexRemoved''
            else True))
      \<and> list_all (\<lambda>c. if c = CHR ''.'' then False else True) k)"

fun checkObject :: "json \<Rightarrow> bool" where
  "checkObject (JArr xs) = list_all checkObject xs"
| "checkObject (JObj kvs) = list_all (\<lambda>kv. checkKey (fst kv) (snd kv) \<and> checkObject (snd kv)) kvs"
| "checkObject v = True"

text \<open>
  A query \<^verbatim>\<open>{field: "text"}\<close> matches a string equal to the text, and an array one of
  whose elements matches.
\<close>

fun matches_string :: "string \<Rightarrow> json \<Rightarrow> bool" where
  "matches_string q (JStr s) = (s = q)"
| "matches_string q (JArr xs) = list_ex (matches_string q) xs"
| "matches_string q v = False"

definition has_id :: "string \<Rightarrow> doc \<Rightarrow> bool" where
  "has_id i d = (case map_of d ''_id'' of None \<Rightarrow> False | Some v \<Rightarrow> matches_string i v)"

definition findOne_id :: "string \<Rightarrow> doc list \<Rightarrow> doc option" where
  "findOne_id i coll = find (has_id i) coll"

text \<open>What \<^verbatim>\<open>res.json\<close> sends for the result of \<^verbatim>\<open>findOne\<close>: the document, or \<^verbatim>\<open>null\<close>.\<close>

fun found_json :: "doc option \<Rightarrow> json" where
  "found_json None = JNull"
| "found_json (Some d) = JObj d"

text \<open>
  \<^verbatim>\<open>$set\<close> assigns each field of the patch to the document, then the result is checked:
  its field names must be valid and its \<^verbatim>\<open>_id\<close> must be the old one (compared with
  \<^verbatim>\<open>!==\<close>, so it must be a primitive value). A dotted field name addresses a nested
  field; that part of the library is not modelled and yields \<open>Unmodelled\<close>.
\<close>

fun primitive :: "jsval \<Rightarrow> bool" where
  "primitive (Some (JArr xs)) = False"
| "primitive (Some (JObj kvs)) = False"
| "primitive v = True"

definition modify_set :: "doc \<Rightarrow> doc \<Rightarrow> error + doc" where
  "modify_set patch d =
     (if list_ex (\<lambda>kv. CHR ''.'' \<in> set (fst kv)) patch then Inl Unmodelled
      else
        let newDoc = fold (\<lambda>kv. AList.update (fst kv) (snd kv)) patch d in
        if checkObject (JObj newDoc) = False then Inl InvalidFieldName
        else if map_of newDoc ''_id'' = map_of d ''_id'' \<and> primitive (map_of d ''_id'')
        then Inr newDoc
        else Inl IdChanged)"

text \<open>Without the \<^verbatim>\<open>multi\<close> option, \<^verbatim>\<open>update\<close> changes the first matching document only.\<close>

fun update_first :: "(doc \<Rightarrow> bool) \<Rightarrow> (doc \<Rightarrow> error + doc) \<Rightarrow> doc list \<Rightarrow> error + doc list" where
  "update_first p f [] = Inr []"
| "update_first p f (d # ds) =
     (if p d then (case f d of Inl e \<Rightarrow> Inl e | Inr d' \<Rightarrow> Inr (d' # ds))
      else (case update_first p f ds of Inl e \<Rightarrow> Inl e | Inr ds' \<Rightarrow> Inr (d # ds')))"

definition update_set :: "string \<Rightarrow> doc \<Rightarrow> doc list \<Rightarrow> error + doc list" where
  "update_set i patch coll = update_first (has_id i) (modify_set patch) coll"

fun remove_first :: "(doc \<Rightarrow> bool) \<Rightarrow> doc list \<Rightarrow> doc list" where
  "remove_first p [] = []"
| "remove_first p (d # ds) = (if p d then ds else d # remove_first p ds)"

text \<open>
  \<^verbatim>\<open>insert\<close> works on a copy of the document it is given. The copy is made value by
  value, each property of an object by an assignment \<^verbatim>\<open>res[k] = ...\<close>. Assigning to the
  name \<^verbatim>\<open>__proto__\<close> sets the prototype of the copy and creates no property, so the copy of
  an object has no property \<^verbatim>\<open>__proto__\<close>, at any depth.
\<close>

fun deepCopy :: "json \<Rightarrow> json" where
  "deepCopy (JArr xs) = JArr (map deepCopy xs)"
| "deepCopy (JObj kvs) =
     JObj (map (\<lambda>kv. (fst kv, deepCopy (snd kv)))
             (filter (\<lambda>kv. fst kv \<noteq> ''__proto__'') kvs))"
| "deepCopy v = v"

text \<open>
  Whether reading \<^verbatim>\<open>_id\<close> of the copy of a value finds one: among the properties of the
  copy, or among those of its prototype, which is the copy of what the value held
  under \<^verbatim>\<open>__proto__\<close>.
\<close>

fun reads_id :: "json \<Rightarrow> bool" where
  "reads_id (JObj kvs) =
     list_ex (\<lambda>kv. fst kv = ''_id'' \<or> (fst kv = ''__proto__'' \<and> reads_id (snd kv))) kvs"
| "reads_id v = False"

text \<open>
  The index on \<^verbatim>\<open>_id\<close> is unique. It holds a document under its \<^verbatim>\<open>_id\<close>, and a document
  whose \<^verbatim>\<open>_id\<close> is an array under each element of the array; a document whose \<^verbatim>\<open>_id\<close> is
  the empty array is held under no key.
\<close>

fun index_keys :: "jsval \<Rightarrow> json list" where
  "index_keys None = []"
| "index_keys (Some (JArr xs)) = xs"
| "index_keys (Some v) = [v]"

definition id_taken :: "json \<Rightarrow> doc list \<Rightarrow> bool" where
  "id_taken k coll = list_ex (\<lambda>d. k \<in> set (index_keys (map_of d ''_id''))) coll"

text \<open>
  The index orders its keys: \<^verbatim>\<open>null\<close>, then numbers, then strings (compared with \<^verbatim>\<open><\<close>,
  code unit by code unit), then booleans, then arrays, then objects. Arrays among
  themselves and objects among themselves are compared by their contents; that part is
  not modelled, and \<open>insert_doc\<close> below admits no such key.
\<close>

fun string_before :: "string \<Rightarrow> string \<Rightarrow> bool" where
  "string_before s [] = False"
| "string_before [] (d # ds) = True"
| "string_before (c # cs) (d # ds) =
     ((of_char c :: nat) < of_char d \<or> (c = d \<and> string_before cs ds))"

fun type_rank :: "json \<Rightarrow> nat" where
  "type_rank JNull = 1"
| "type_rank (JNum n) = 2"
| "type_rank (JStr s) = 3"
| "type_rank (JBool b) = 4"
| "type_rank (JArr xs) = 6"
| "type_rank (JObj kvs) = 7"

fun key_before :: "json \<Rightarrow> json \<Rightarrow> bool" where
  "key_before (JNum x) (JNum y) = (x < y)"
| "key_before (JStr s) (JStr t) = string_before s t"
| "key_before (JBool a) (JBool b) = (a = False \<and> b)"
| "key_before a b = (type_rank a < type_rank b)"

text \<open>
  \<open>getAll\<close> is the enumeration of the index: every document once for each of its keys,
  in the order of the keys. It is what a query is run on that names no indexed field.
\<close>

definition index_entries :: "doc list \<Rightarrow> (json \<times> doc) list" where
  "index_entries coll =
     concat (map (\<lambda>d. map (\<lambda>k. (k, d)) (remdups (index_keys (map_of d ''_id'')))) coll)"

fun insert_entry :: "json \<times> doc \<Rightarrow> (json \<times> doc) list \<Rightarrow> (json \<times> doc) list" where
  "insert_entry x [] = [x]"
| "insert_entry x (y # ys) =
     (if key_before (fst x) (fst y) then x # y # ys else y # insert_entry x ys)"

definition getAll :: "doc list \<Rightarrow> doc list" where
  "getAll coll = map snd (fold insert_entry (index_entries coll) [])"

text \<open>
  \<^verbatim>\<open>insert\<close> copies the document, gives the copy an \<^verbatim>\<open>_id\<close> if reading its \<^verbatim>\<open>_id\<close> finds
  none, checks the field names of the copy, adds it to the index, which refuses a key
  already there, and answers with the copy. \<open>new_id\<close> is the identifier the library
  generates, which it draws until unused. A document held under no key is never met
  again by any query, so the collection is left as it was. Two cases are not modelled
  and yield \<open>Unmodelled\<close>: a copy that has no \<^verbatim>\<open>_id\<close> of its own but inherits one from its
  prototype, and a key that is an array or an object.
\<close>

definition insert_doc :: "string \<Rightarrow> doc \<Rightarrow> doc list \<Rightarrow> error + (doc list \<times> doc)" where
  "insert_doc new_id d coll =
     (let c = fields_of (deepCopy (JObj d)) in
      if map_of c ''_id'' = None \<and> reads_id (JObj d) then Inl Unmodelled
      else
        let d' = (case map_of c ''_id'' of None \<Rightarrow> c @ [(''_id'', JStr new_id)] | Some v \<Rightarrow> c);
            keys = index_keys (map_of d' ''_id'')
        in if checkObject (JObj d') = False then Inl InvalidFieldName
           else if list_all (\<lambda>k. primitive (Some k)) keys = False then Inl Unmodelled
           else if list_ex (\<lambda>k. id_taken k coll) keys then Inl UniqueViolated
           else if keys = [] then Inr (coll, d')
           else Inr (coll @ [d'], d'))"

text \<open>
  A query \<^verbatim>\<open>{field: /regex/}\<close> tests a string against the regular expression, and an
  array element by element. Of JavaScript's regular expressions, the patterns
  \<^verbatim>\<open>^\<close>\<open>atoms\<close>\<^verbatim>\<open>$\<close> are modelled, an atom being a literal character or \<^verbatim>\<open>.\<close>, each with an
  optional \<^verbatim>\<open>*\<close>, under the flag \<^verbatim>\<open>i\<close>. Any other metacharacter makes the pattern
  \<open>Unmodelled\<close> (this covers the patterns the constructor rejects as well). Characters
  are ASCII.
\<close>

datatype atom = Lit char | AnyChar

type_synonym regex = "(atom \<times> bool) list"

definition metachars :: "char list" where
  "metachars = [CHR 0x5C, CHR ''^'', CHR ''$'', CHR ''*'', CHR ''+'', CHR ''?'', CHR ''('', CHR '')'',
                CHR ''['', CHR '']'', CHR ''{'', CHR ''}'', CHR ''|'']"

fun parse_atoms :: "string \<Rightarrow> error + regex" where
  "parse_atoms [] = Inr []"
| "parse_atoms (c # cs) =
     (if c \<in> set metachars then Inl Unmodelled
      else
        let a = (if c = CHR ''.'' then AnyChar else Lit c) in
        (case cs of
           [] \<Rightarrow> Inr [(a, False)]
         | d # rest \<Rightarrow>
             (if d = CHR ''*''
              then (case parse_atoms rest of Inl e \<Rightarrow> Inl e | Inr r \<Rightarrow> Inr ((a, True) # r))
              else (case parse_atoms cs of Inl e \<Rightarrow> Inl e | Inr r \<Rightarrow> Inr ((a, False) # r)))))"

definition RegExp_i :: "string \<Rightarrow> error + regex" where
  "RegExp_i src =
     (case src of
        [] \<Rightarrow> Inl Unmodelled
      | c # cs \<Rightarrow>
          (if c = CHR ''^'' \<and> cs \<noteq> [] \<and> last cs = CHR ''$'' then parse_atoms (butlast cs)
           else Inl Unmodelled))"

text \<open>\<^verbatim>\<open>toUpperCase\<close> and \<^verbatim>\<open>toLowerCase\<close> on an ASCII character.\<close>

definition toUpperCase_char :: "char \<Rightarrow> char" where
  "toUpperCase_char c =
     (case map_of (zip ''abcdefghijklmnopqrstuvwxyz'' ''ABCDEFGHIJKLMNOPQRSTUVWXYZ'') c of
        None \<Rightarrow> c
      | Some u \<Rightarrow> u)"

definition toLowerCase_char :: "char \<Rightarrow> char" where
  "toLowerCase_char c =
     (case map_of (zip ''ABCDEFGHIJKLMNOPQRSTUVWXYZ'' ''abcdefghijklmnopqrstuvwxyz'') c of
        None \<Rightarrow> c
      | Some l \<Rightarrow> l)"

fun atom_matches :: "atom \<Rightarrow> char \<Rightarrow> bool" where
  "atom_matches (Lit c) x = (toUpperCase_char c = toUpperCase_char x)"
| "atom_matches AnyChar x = (if x = CHR 0x0A \<or> x = CHR 0x0D then False else True)"

fun regex_test :: "regex \<Rightarrow> string \<Rightarrow> bool" where
  "regex_test [] s = (s = [])"
| "regex_test ((a, False) # r) s =
     (case s of [] \<Rightarrow> False | x # xs \<Rightarrow> atom_matches a x \<and> regex_test r xs)"
| "regex_test ((a, True) # r) s =
     (regex_test r s
      \<or> (case s of [] \<Rightarrow> False | x # xs \<Rightarrow> atom_matches a x \<and> regex_test ((a, True) # r) xs))"

fun matches_regex :: "regex \<Rightarrow> json \<Rightarrow> bool" where
  "matches_regex re (JStr s) = regex_test re s"
| "matches_regex re (JArr xs) = list_ex (matches_regex re) xs"
| "matches_regex re v = False"

definition has_trackingNumber :: "regex \<Rightarrow> doc \<Rightarrow> bool" where
  "has_trackingNumber re d =
     (case map_of d ''trackingNumber'' of None \<Rightarrow> False | Some v \<Rightarrow> matches_regex re v)"

section \<open>The server\<close>

text \<open>
  The state of the server is its three collections. What a handler reads from outside
  (the clock, the random identifiers, the cryptographic functions) is the environment
  of the request.
\<close>

record state =
  users :: "doc list"
  shipments :: "doc list"
  quotes :: "doc list"

record env =
  iso_now :: string
  iso_later :: string
  date_now :: nat
  nanoid_first :: string
  nanoid_second :: string
  fresh_id :: string
  bcrypt_hash :: "string \<Rightarrow> string"
  bcrypt_compare :: "string \<Rightarrow> string \<Rightarrow> bool"
  jwt_sign :: "json \<Rightarrow> string"
  jwt_verify :: "string \<Rightarrow> bool"

text \<open>
  \<open>iso_now\<close> and \<open>iso_later\<close> are the first and the second \<^verbatim>\<open>new Date().toISOString()\<close>
  of a handler, \<open>date_now\<close> is \<^verbatim>\<open>Date.now()\<close>, \<open>nanoid_first\<close> and \<open>nanoid_second\<close> the
  first and the second result of \<^verbatim>\<open>nanoid()\<close>, \<open>fresh_id\<close> the \<^verbatim>\<open>_id\<close> the datastore
  generates. \<open>jwt_sign\<close> maps the payload to the token; \<open>jwt_verify\<close> tells whether
  \<^verbatim>\<open>jwt.verify\<close> accepts a token.
\<close>

datatype response = Response nat json

type_synonym outcome = "error + (state \<times> response)"

definition error_body :: "string \<Rightarrow> json" where
  "error_body e = JObj [(''error'', JStr e)]"

definition ok_body :: json where
  "ok_body = JObj [(''ok'', JBool True)]"

text \<open>\<^verbatim>\<open>req.body || {}\<close>\<close>

definition body_or_empty :: "jsval \<Rightarrow> json" where
  "body_or_empty b = (case js_or b (Some (JObj [])) of None \<Rightarrow> JObj [] | Some v \<Rightarrow> v)"

subsection \<open>Helpers\<close>

definition signToken :: "env \<Rightarrow> doc \<Rightarrow> string" where
  "signToken e user =
     jwt_sign e (JObj (object [(''sub'', map_of user ''_id''), (''email'', map_of user ''email'')]))"

definition authMiddleware :: "env \<Rightarrow> string option \<Rightarrow> response option" where
  "authMiddleware e authorization =
     (let hdr = (case authorization of None \<Rightarrow> [] | Some h \<Rightarrow> h);
          token = (if take 7 hdr = ''Bearer '' then Some (drop 7 hdr) else None)
      in case token of
           None \<Rightarrow> Some (Response 401 (error_body ''missing_token''))
         | Some t \<Rightarrow>
             (if t = [] then Some (Response 401 (error_body ''missing_token''))
              else if jwt_verify e t then None
              else Some (Response 401 (error_body ''invalid_token''))))"

definition trackingNumber :: "env \<Rightarrow> string" where
  "trackingNumber e =
     ''SC'' @ map toUpperCase_char (toString_radix 36 (date_now e)) @ nanoid_first e"

subsection \<open>\<^verbatim>\<open>POST /api/auth/register\<close>\<close>

definition user_json :: "doc \<Rightarrow> json" where
  "user_json user = JObj (object [(''id'', map_of user ''_id''), (''email'', map_of user ''email'')])"

definition register :: "env \<Rightarrow> state \<Rightarrow> jsval \<Rightarrow> outcome" where
  "register e st req_body =
     (let body = body_or_empty req_body;
          email = field body ''email'';
          password = field body ''password''
      in if truthy email = False \<or> truthy password = False
         then Inr (st, Response 400 (error_body ''missing_fields''))
         else if 0 < length (getAll (users st))
         then Inr (st, Response 403 (error_body ''registration_closed''))
         else
           (case password of
              Some (JStr p) \<Rightarrow>
                (case email of
                   Some (JStr m) \<Rightarrow>
                     (case insert_doc (fresh_id e)
                             [(''email'', JStr (map toLowerCase_char m)),
                              (''password'', JStr (bcrypt_hash e p)),
                              (''role'', JStr ''admin''),
                              (''createdAt'', JStr (iso_now e))]
                             (users st) of
                        Inl err \<Rightarrow> Inl err
                      | Inr (coll, user) \<Rightarrow>
                          Inr (st\<lparr>users := coll\<rparr>,
                               Response 200
                                 (JObj [(''token'', JStr (signToken e user)),
                                        (''user'', user_json user)])))
                 | _ \<Rightarrow> Inl TypeError)
            | _ \<Rightarrow> Inl TypeError))"

subsection \<open>\<^verbatim>\<open>GET /api/track/:trackingNumber\<close>\<close>

definition is_space :: "char \<Rightarrow> bool" where
  "is_space c = (c \<in> set [CHR '' '', CHR 0x09, CHR 0x0A, CHR 0x0B, CHR 0x0C, CHR 0x0D])"

definition trim :: "string \<Rightarrow> string" where
  "trim s = rev (dropWhile is_space (rev (dropWhile is_space s)))"

definition track :: "state \<Rightarrow> string \<Rightarrow> outcome" where
  "track st param =
     (let t = trim param in
      case RegExp_i (''^'' @ t @ ''$'') of
        Inl err \<Rightarrow> Inl err
      | Inr re \<Rightarrow>
          (case find (has_trackingNumber re) (getAll (shipments st)) of
             None \<Rightarrow> Inr (st, Response 404 (error_body ''not_found''))
           | Some s \<Rightarrow> Inr (st, Response 200 (JObj s))))"

subsection \<open>\<^verbatim>\<open>POST /api/quotes\<close>, \<^verbatim>\<open>PATCH /api/quotes/:id\<close>, \<^verbatim>\<open>DELETE /api/quotes/:id\<close>\<close>

definition post_quote :: "env \<Rightarrow> state \<Rightarrow> jsval \<Rightarrow> outcome" where
  "post_quote e st req_body =
     (let q = body_or_empty req_body;
          now = iso_now e
      in case insert_doc (fresh_id e)
                (AList.update ''createdAt'' (JStr now)
                   (AList.update ''status'' (JStr ''new'') (fields_of q)))
                (quotes st) of
           Inl err \<Rightarrow> Inl err
         | Inr (coll, d) \<Rightarrow> Inr (st\<lparr>quotes := coll\<rparr>, Response 201 (JObj d)))"

definition patch_quote :: "state \<Rightarrow> string \<Rightarrow> jsval \<Rightarrow> outcome" where
  "patch_quote st i req_body =
     (let patch = fields_of (body_or_empty req_body) in
      case update_set i patch (quotes st) of
        Inl err \<Rightarrow> Inl err
      | Inr coll \<Rightarrow> Inr (st\<lparr>quotes := coll\<rparr>, Response 200 (found_json (findOne_id i coll))))"

definition delete_quote :: "state \<Rightarrow> string \<Rightarrow> outcome" where
  "delete_quote st i =
     Inr (st\<lparr>quotes := remove_first (has_id i) (quotes st)\<rparr>, Response 200 ok_body)"

subsection \<open>\<^verbatim>\<open>POST /api/shipments\<close>\<close>

definition created_event :: "env \<Rightarrow> json \<Rightarrow> json" where
  "created_event e body =
     JObj (object
       [(''id'', Some (JStr (nanoid_second e))),
        (''time'', Some (JStr (iso_now e))),
        (''status'', Some (JStr ''Created'')),
        (''location'', js_or (field body ''origin'') (Some (JStr []))),
        (''note'', Some (JStr ''Shipment created''))])"

text \<open>The document the handler inserts.\<close>

definition new_shipment :: "env \<Rightarrow> json \<Rightarrow> doc" where
  "new_shipment e body =
     object
       [(''trackingNumber'', Some (JStr (trackingNumber e))),
        (''customer'', field body ''customer''),
        (''email'', js_or (field body ''email'') (Some (JStr []))),
        (''origin'', field body ''origin''),
        (''destination'', field body ''destination''),
        (''service'', js_or (field body ''service'') (Some (JStr ''Standard''))),
        (''weight'', js_or (field body ''weight'') (Some (JStr []))),
        (''status'', js_or (field body ''status'') (Some (JStr ''Created''))),
        (''createdAt'', Some (JStr (iso_now e))),
        (''updatedAt'', Some (JStr (iso_now e))),
        (''events'',
           if truthy (field body ''events'') \<and> isArray (field body ''events'')
           then field body ''events''
           else Some (JArr [created_event e body]))]"

definition post_shipment :: "env \<Rightarrow> state \<Rightarrow> jsval \<Rightarrow> outcome" where
  "post_shipment e st req_body =
     (let body = body_or_empty req_body in
      case insert_doc (fresh_id e) (new_shipment e body) (shipments st) of
        Inl err \<Rightarrow> Inl err
      | Inr (coll, d) \<Rightarrow> Inr (st\<lparr>shipments := coll\<rparr>, Response 201 (JObj d)))"

subsection \<open>\<^verbatim>\<open>PATCH /api/shipments/:id\<close>, \<^verbatim>\<open>DELETE /api/shipments/:id\<close>\<close>

definition patch_shipment :: "env \<Rightarrow> state \<Rightarrow> string \<Rightarrow> jsval \<Rightarrow> outcome" where
  "patch_shipment e st i req_body =
     (let patch = AList.update ''updatedAt'' (JStr (iso_now e)) (fields_of (body_or_empty req_body)) in
      case update_set i patch (shipments st) of
        Inl err \<Rightarrow> Inl err
      | Inr coll \<Rightarrow> Inr (st\<lparr>shipments := coll\<rparr>, Response 200 (found_json (findOne_id i coll))))"

definition delete_shipment :: "state \<Rightarrow> string \<Rightarrow> outcome" where
  "delete_shipment st i =
     Inr (st\<lparr>shipments := remove_first (has_id i) (shipments st)\<rparr>, Response 200 ok_body)"

subsection \<open>\<^verbatim>\<open>POST /api/shipments/:id/events\<close>\<close>

text \<open>\<^verbatim>\<open>Array.isArray(x) ? x : []\<close>\<close>

fun array_or_empty :: "jsval \<Rightarrow> json list" where
  "array_or_empty (Some (JArr xs)) = xs"
| "array_or_empty v = []"

definition new_event :: "env \<Rightarrow> json \<Rightarrow> json" where
  "new_event e body =
     JObj (object
       [(''id'', Some (JStr (nanoid_first e))),
        (''time'', js_or (field body ''time'') (Some (JStr (iso_now e)))),
        (''status'', js_or (field body ''status'') (Some (JStr ''In Transit''))),
        (''location'', js_or (field body ''location'') (Some (JStr []))),
        (''note'', js_or (field body ''note'') (Some (JStr [])))])"

definition post_event :: "env \<Rightarrow> state \<Rightarrow> string \<Rightarrow> jsval \<Rightarrow> outcome" where
  "post_event e st i req_body =
     (let body = body_or_empty req_body;
          event = new_event e body
      in case findOne_id i (shipments st) of
           None \<Rightarrow> Inr (st, Response 404 (error_body ''not_found''))
         | Some s \<Rightarrow>
             (let events = event # array_or_empty (map_of s ''events'') in
              case update_set i
                     (object
                       [(''events'', Some (JArr events)),
                        (''updatedAt'', Some (JStr (iso_later e))),
                        (''status'', js_or (field body ''status'') (map_of s ''status''))])
                     (shipments st) of
                Inl err \<Rightarrow> Inl err
              | Inr coll \<Rightarrow>
                  Inr (st\<lparr>shipments := coll\<rparr>, Response 201 (found_json (findOne_id i coll)))))"

subsection \<open>\<^verbatim>\<open>DELETE /api/shipments/:id/events/:eventId\<close>\<close>

text \<open>
  \<^verbatim>\<open>(s.events || []).filter(ev => ev.id !== eventId)\<close>: a value that is truthy and not an
  array has no \<^verbatim>\<open>filter\<close> method, and reading \<^verbatim>\<open>id\<close> of \<^verbatim>\<open>null\<close> throws.
\<close>

definition keeps_event :: "string \<Rightarrow> json \<Rightarrow> bool" where
  "keeps_event eventId ev = (if field ev ''id'' = Some (JStr eventId) then False else True)"

definition filter_events :: "string \<Rightarrow> jsval \<Rightarrow> error + json list" where
  "filter_events eventId v =
     (case js_or v (Some (JArr [])) of
        Some (JArr xs) \<Rightarrow>
          (if list_ex (\<lambda>ev. ev = JNull) xs then Inl TypeError
           else Inr (filter (keeps_event eventId) xs))
      | _ \<Rightarrow> Inl TypeError)"

definition delete_event :: "env \<Rightarrow> state \<Rightarrow> string \<Rightarrow> string \<Rightarrow> outcome" where
  "delete_event e st i eventId =
     (case findOne_id i (shipments st) of
        None \<Rightarrow> Inr (st, Response 404 (error_body ''not_found''))
      | Some s \<Rightarrow>
          (case filter_events eventId (map_of s ''events'') of
             Inl err \<Rightarrow> Inl err
           | Inr events \<Rightarrow>
               (case update_set i
                       (object
                         [(''events'', Some (JArr events)),
                          (''updatedAt'', Some (JStr (iso_now e)))])
                       (shipments st) of
                  Inl err \<Rightarrow> Inl err
                | Inr coll \<Rightarrow>
                    Inr (st\<lparr>shipments := coll\<rparr>, Response 200 (found_json (findOne_id i coll))))))"

subsection \<open>\<^verbatim>\<open>POST /api/auth/login\<close>\<close>

definition has_email :: "string \<Rightarrow> doc \<Rightarrow> bool" where
  "has_email m d = (case map_of d ''email'' of None \<Rightarrow> False | Some v \<Rightarrow> matches_string m v)"

definition login :: "env \<Rightarrow> state \<Rightarrow> jsval \<Rightarrow> outcome" where
  "login e st req_body =
     (let body = body_or_empty req_body;
          email = field body ''email'';
          password = field body ''password''
      in if truthy email = False \<or> truthy password = False
         then Inr (st, Response 400 (error_body ''missing_fields''))
         else
           (case email of
              Some (JStr m) \<Rightarrow>
                (case find (has_email (map toLowerCase_char m)) (getAll (users st)) of
                   None \<Rightarrow> Inr (st, Response 401 (error_body ''invalid_credentials''))
                 | Some user \<Rightarrow>
                     (case password of
                        Some (JStr p) \<Rightarrow>
                          (case map_of user ''password'' of
                             Some (JStr h) \<Rightarrow>
                               (if bcrypt_compare e p h
                                then Inr (st, Response 200
                                            (JObj [(''token'', JStr (signToken e user)),
                                                   (''user'', user_json user)]))
                                else Inr (st, Response 401 (error_body ''invalid_credentials'')))
                           | _ \<Rightarrow> Inl TypeError)
                      | _ \<Rightarrow> Inl TypeError))
            | _ \<Rightarrow> Inl TypeError))"

subsection \<open>Requests\<close>

text \<open>
  The routes of the server, each with what it reads from the request. The routes that
  carry \<^verbatim>\<open>authMiddleware\<close> run their handler only if it lets the request pass. The two
  sorted listings and the health check only read, and are left out.
\<close>

datatype request =
    Register jsval
  | Login jsval
  | Track string
  | PostQuote jsval
  | PatchQuote string jsval
  | DeleteQuote string
  | PostShipment jsval
  | PatchShipment string jsval
  | DeleteShipment string
  | PostEvent string jsval
  | DeleteEvent string string

definition protected :: "env \<Rightarrow> string option \<Rightarrow> state \<Rightarrow> outcome \<Rightarrow> outcome" where
  "protected e authorization st handler =
     (case authMiddleware e authorization of Some r \<Rightarrow> Inr (st, r) | None \<Rightarrow> handler)"

fun handle :: "env \<Rightarrow> string option \<Rightarrow> state \<Rightarrow> request \<Rightarrow> outcome" where
  "handle e a st (Register b) = register e st b"
| "handle e a st (Login b) = login e st b"
| "handle e a st (Track t) = track st t"
| "handle e a st (PostQuote b) = post_quote e st b"
| "handle e a st (PatchQuote i b) = protected e a st (patch_quote st i b)"
| "handle e a st (DeleteQuote i) = protected e a st (delete_quote st i)"
| "handle e a st (PostShipment b) = protected e a st (post_shipment e st b)"
| "handle e a st (PatchShipment i b) = protected e a st (patch_shipment e st i b)"
| "handle e a st (DeleteShipment i) = protected e a st (delete_shipment st i)"
| "handle e a st (PostEvent i b) = protected e a st (post_event e st i b)"
| "handle e a st (DeleteEvent i eventId) = protected e a st (delete_event e st i eventId)"

text \<open>
  The state a request leaves behind. Every handler writes at most once, as its last
  datastore call but the final read, so a handler that fails has written nothing.
\<close>

definition state_after :: "state \<Rightarrow> outcome \<Rightarrow> state" where
  "state_after st r = (case r of Inl err \<Rightarrow> st | Inr (st', res) \<Rightarrow> st')"

text \<open>A sequence of requests, each with its environment and its authorization header.\<close>

fun run :: "state \<Rightarrow> (env \<times> string option \<times> request) list \<Rightarrow> state" where
  "run st [] = st"
| "run st ((e, a, r) # rs) = run (state_after st (handle e a st r)) rs"

section \<open>Well-formed collections\<close>

text \<open>
  What the datastore guarantees of the shipments it holds: every document passed the
  field-name check, carries the \<^verbatim>\<open>_id\<close> string the datastore generated for it, and no
  two documents share an \<^verbatim>\<open>_id\<close>.
\<close>

definition string_id :: "doc \<Rightarrow> bool" where
  "string_id d = (case map_of d ''_id'' of Some (JStr i) \<Rightarrow> True | _ \<Rightarrow> False)"

definition stored :: "doc \<Rightarrow> bool" where
  "stored d = (checkObject (JObj d) \<and> string_id d)"

definition wf_coll :: "doc list \<Rightarrow> bool" where
  "wf_coll coll = (list_all stored coll \<and> distinct (map (\<lambda>d. map_of d ''_id'') coll))"

text \<open>
  A request body all of whose field names, at any depth, the datastore accepts.
\<close>

definition valid_body :: "jsval \<Rightarrow> bool" where
  "valid_body b = checkObject (JObj (fields_of (body_or_empty b)))"





text \<open>
  A lookup string without characters that are special in a regular expression, and the
  regular expression that matches exactly its characters.
\<close>

definition literal :: "string \<Rightarrow> bool" where
  "literal t = list_all (\<lambda>c. if c \<in> set metachars \<or> c = CHR ''.'' then False else True) t"

definition literally :: "string \<Rightarrow> regex" where
  "literally t = map (\<lambda>c. (Lit c, False)) t"

section \<open>Observations\<close>



text \<open>The tracking numbers of the stored shipments, in the order of the collection.\<close>

definition tracking_numbers :: "state \<Rightarrow> jsval list" where
  "tracking_numbers st = map (\<lambda>d. map_of d ''trackingNumber'') (shipments st)"

section \<open>Example data\<close>

definition example_env :: env where
  "example_env =
     \<lparr>iso_now = ''2024-01-01T00:00:00.000Z'', iso_later = ''2024-01-01T00:00:00.001Z'',
      date_now = 1704067200000, nanoid_first = ''ABCDEFGHJK'', nanoid_second = ''LMNPQRSTUV'',
      fresh_id = ''id2'', bcrypt_hash = (\<lambda>p. ''hash:'' @ p),
      bcrypt_compare = (\<lambda>p h. h = ''hash:'' @ p),
      jwt_sign =
        (\<lambda>j. ''token:'' @ (case field j ''sub'' of Some (JStr s) \<Rightarrow> s | _ \<Rightarrow> [])
               @ '':'' @ (case field j ''email'' of Some (JStr s) \<Rightarrow> s | _ \<Rightarrow> [])),
      jwt_verify = (\<lambda>t. take 6 t = ''token:'')\<rparr>"

definition example_shipment :: doc where
  "example_shipment =
     [(''trackingNumber'', JStr ''SC1ABCDEF234''), (''customer'', JStr ''X''),
      (''status'', JStr ''In Transit''),
      (''events'',
         JArr [JObj [(''id'', JStr ''EV2''), (''status'', JStr ''In Transit'')],
               JObj [(''id'', JStr ''EV1''), (''status'', JStr ''Created'')]]),
      (''_id'', JStr ''id1'')]"

definition example_state :: state where
  "example_state = \<lparr>users = [], shipments = [example_shipment], quotes = []\<rparr>"

definition second_shipment :: doc where
  "second_shipment =
     [(''trackingNumber'', JStr ''SC2ZYXWVU987''), (''customer'', JStr ''Y''),
      (''status'', JStr ''Created''), (''events'', JArr []), (''_id'', JStr ''id3'')]"

definition two_shipments :: state where
  "two_shipments = \<lparr>users = [], shipments = [example_shipment, second_shipment], quotes = []\<rparr>"

definition create_body :: jsval where
  "create_body =
     Some (JObj [(''customer'', JStr ''X''), (''origin'', JStr ''LA''), (''destination'', JStr ''NYC'')])"



definition renumber_body :: jsval where
  "renumber_body = Some (JObj [(''trackingNumber'', JStr ''SC1ABCDEF234'')])"

definition register_body :: jsval where
  "register_body = Some (JObj [(''email'', JStr ''A@b.com''), (''password'', JStr ''secret1'')])"

definition other_register_body :: jsval where
  "other_register_body = Some (JObj [(''email'', JStr ''c@d.com''), (''password'', JStr ''secret2'')])"

section \<open>Properties\<close>

subsection \<open>The datastore operations\<close>

lemma checkObject_update:
  "checkObject (JObj d) \<Longrightarrow> checkKey k v \<Longrightarrow> checkObject v \<Longrightarrow> checkObject (JObj (AList.update k v d))"
  by (induction d) auto

lemma checkObject_field:
  "checkObject (JObj d) \<Longrightarrow> map_of d k = Some v \<Longrightarrow> checkObject v"
  by (induction d) (auto split: if_splits)

lemma checkKey_field:
  "checkObject (JObj d) \<Longrightarrow> map_of d k = Some v \<Longrightarrow> checkKey k v"
  by (induction d) (auto split: if_splits)

lemma checkObject_append:
  "checkObject (JObj (d @ d')) = (checkObject (JObj d) \<and> checkObject (JObj d'))"
  by simp

lemma valid_body_field:
  "valid_body b \<Longrightarrow> field (body_or_empty b) k = Some v \<Longrightarrow> checkObject v"
  unfolding valid_body_def field_def by (rule checkObject_field)


lemma map_of_deepCopy:
  "map_of (fields_of (deepCopy (JObj d))) k
     = (if k = ''__proto__'' then None else map_option deepCopy (map_of d k))"
  by (induction d) auto



lemma reads_id_iff:
  "reads_id (JObj d) = (\<exists>kv\<in>set d. fst kv = ''_id'' \<or> fst kv = ''__proto__'' \<and> reads_id (snd kv))"
  by (simp add: list_ex_iff)






lemma insert_doc_Inr:
  assumes "insert_doc n d coll = Inr (coll', d')" and "map_of d ''_id'' = None"
  shows "coll' = coll @ [d']" and "d' = fields_of (deepCopy (JObj d)) @ [(''_id'', JStr n)]"
    and "id_taken (JStr n) coll = False" and "checkObject (JObj d')"
proof -
  define c where "c = fields_of (deepCopy (JObj d))"
  from assms(2) have none: "map_of c ''_id'' = None" unfolding c_def by (simp only: map_of_deepCopy) simp
  then have idv: "map_of (c @ [(''_id'', JStr n)]) ''_id'' = Some (JStr n)"
    by (simp add: map_add_def)
  from assms(1) [unfolded insert_doc_def c_def [symmetric] Let_def] none idv
  have "coll' = coll @ [d'] \<and> d' = c @ [(''_id'', JStr n)]
        \<and> id_taken (JStr n) coll = False \<and> checkObject (JObj d')"
    by (auto simp del: checkObject.simps map_of_append split: if_splits)
  then show "coll' = coll @ [d']" and "d' = fields_of (deepCopy (JObj d)) @ [(''_id'', JStr n)]"
    and "id_taken (JStr n) coll = False" and "checkObject (JObj d')"
    unfolding c_def by blast+
qed

lemma map_of_inserted:
  "map_of (fields_of (deepCopy (JObj d)) @ [(''_id'', JStr n)]) k
     = (if k = ''__proto__'' then None
        else if k = ''_id'' \<and> map_of d ''_id'' = None then Some (JStr n)
        else map_option deepCopy (map_of d k))"
proof -
  have "map_of (c @ [(''_id'', JStr n)]) k
      = (case map_of c k of
           None \<Rightarrow> if k = ''_id'' then Some (JStr n) else None
         | Some v \<Rightarrow> Some v)" for c :: doc
    by (simp add: map_add_def split: option.splits)
  then show ?thesis
    by (simp only: map_of_deepCopy) (auto split: option.splits)
qed



text \<open>A collection of one document is enumerated as that document.\<close>

lemma getAll_single: "primitive (Some i) \<Longrightarrow> map_of d ''_id'' = Some i \<Longrightarrow> getAll [d] = [d]"
  by (cases i) (simp_all add: getAll_def index_entries_def)

lemma update_first_found:
  "find p coll = Some d \<Longrightarrow> f d = Inr d' \<Longrightarrow>
   \<exists>pre post. coll = pre @ d # post \<and> list_all (\<lambda>x. if p x then False else True) pre
              \<and> update_first p f coll = Inr (pre @ d' # post)"
proof (induction coll)
  case Nil
  then show ?case by simp
next
  case (Cons x xs)
  show ?case
  proof (cases "p x")
    case True
    with Cons.prems have "x = d" by simp
    with True Cons.prems have "x # xs = [] @ d # xs \<and> list_all (\<lambda>x. if p x then False else True) []
        \<and> update_first p f (x # xs) = Inr ([] @ d' # xs)" by simp
    then show ?thesis by blast
  next
    case False
    with Cons.prems have "find p xs = Some d" by simp
    from Cons.IH [OF this Cons.prems(2)] obtain pre post where
      "xs = pre @ d # post" "list_all (\<lambda>x. if p x then False else True) pre"
      "update_first p f xs = Inr (pre @ d' # post)" by blast
    with False have "x # xs = (x # pre) @ d # post
        \<and> list_all (\<lambda>x. if p x then False else True) (x # pre)
        \<and> update_first p f (x # xs) = Inr ((x # pre) @ d' # post)" by simp
    then show ?thesis by blast
  qed
qed

lemma update_first_failed:
  "find p coll = Some d \<Longrightarrow> f d = Inl err \<Longrightarrow> update_first p f coll = Inl err"
  by (induction coll) (auto split: if_splits)

lemma find_in_middle:
  "list_all (\<lambda>x. if p x then False else True) pre \<Longrightarrow> p d \<Longrightarrow> find p (pre @ d # post) = Some d"
  by (induction pre) (auto split: if_splits)

lemma has_id_cong: "map_of d' ''_id'' = map_of d ''_id'' \<Longrightarrow> has_id i d' = has_id i d"
  by (simp add: has_id_def)

lemma modify_set_id: "modify_set patch d = Inr d' \<Longrightarrow> map_of d' ''_id'' = map_of d ''_id''"
  by (auto simp: modify_set_def Let_def split: if_splits)

lemma update_set_found:
  assumes found: "findOne_id i coll = Some s" and modified: "modify_set patch s = Inr s'"
  shows "\<exists>pre post. coll = pre @ s # post
           \<and> list_all (\<lambda>x. if has_id i x then False else True) pre
           \<and> update_set i patch coll = Inr (pre @ s' # post)
           \<and> findOne_id i (pre @ s' # post) = Some s'"
proof -
  from found have f: "find (has_id i) coll = Some s" by (simp add: findOne_id_def)
  then have "has_id i s" by (auto simp: find_Some_iff)
  with has_id_cong [OF modify_set_id [OF modified], of i] have "has_id i s'" by simp
  from update_first_found [of "has_id i" coll s "modify_set patch" s', OF f modified] obtain pre post where
    p: "coll = pre @ s # post" "list_all (\<lambda>x. if has_id i x then False else True) pre"
       "update_first (has_id i) (modify_set patch) coll = Inr (pre @ s' # post)" by blast
  from find_in_middle [OF p(2) \<open>has_id i s'\<close>] have "findOne_id i (pre @ s' # post) = Some s'"
    by (simp add: findOne_id_def)
  with p have "coll = pre @ s # post
      \<and> list_all (\<lambda>x. if has_id i x then False else True) pre
      \<and> update_set i patch coll = Inr (pre @ s' # post)
      \<and> findOne_id i (pre @ s' # post) = Some s'"
    by (simp only: update_set_def simp_thms)
  then show ?thesis by blast
qed

lemma update_set_failed:
  "findOne_id i coll = Some s \<Longrightarrow> modify_set patch s = Inl err \<Longrightarrow> update_set i patch coll = Inl err"
  by (simp add: findOne_id_def update_set_def update_first_failed)

lemma fold_update_fields:
  "map_of (fold (\<lambda>kv. AList.update (fst kv) (snd kv)) patch d) = map_of d ++ map_of (rev patch)"
proof (induction patch arbitrary: d)
  case Nil
  then show ?case by simp
next
  case (Cons kv patch)
  have "map_of (fold (\<lambda>kv. AList.update (fst kv) (snd kv)) (kv # patch) d)
          = map_of (AList.update (fst kv) (snd kv) d) ++ map_of (rev patch)"
    by (simp add: Cons.IH)
  also have "\<dots> = (map_of d ++ map_of [kv]) ++ map_of (rev patch)"
    by (cases kv) (simp add: update_conv')
  also have "\<dots> = map_of d ++ map_of (rev (kv # patch))"
    by simp
  finally show ?case .
qed

lemma wf_coll_found: "wf_coll coll \<Longrightarrow> findOne_id i coll = Some s \<Longrightarrow> stored s"
  by (auto simp: wf_coll_def findOne_id_def find_Some_iff list_all_iff)

lemma stored_primitive: "stored s \<Longrightarrow> primitive (map_of s ''_id'')"
  by (auto simp: stored_def string_id_def split: option.splits json.splits)

lemma truthy_Some: "truthy a \<Longrightarrow> \<exists>v. a = Some v"
  by (cases a) auto

lemma js_or_default_valid:
  "valid_body b \<Longrightarrow> checkObject dflt \<Longrightarrow>
   \<exists>v. js_or (field (body_or_empty b) k) (Some dflt) = Some v \<and> checkObject v"
proof (cases "truthy (field (body_or_empty b) k)")
  case True
  then obtain v where v: "field (body_or_empty b) k = Some v" by (auto dest: truthy_Some)
  assume "valid_body b"
  from valid_body_field [OF this v] v True show ?thesis by (simp add: js_or_def)
next
  case False
  assume "checkObject dflt"
  with False show ?thesis by (simp add: js_or_def)
qed

lemma checkObject_fold:
  "checkObject (JObj d) \<Longrightarrow> checkObject (JObj patch) \<Longrightarrow>
   checkObject (JObj (fold (\<lambda>kv. AList.update (fst kv) (snd kv)) patch d))"
proof (induction patch arbitrary: d)
  case Nil
  then show ?case by simp
next
  case (Cons kv patch)
  from Cons.prems(2) have kv: "checkKey (fst kv) (snd kv)" "checkObject (snd kv)"
    and rest: "checkObject (JObj patch)" by simp_all
  from checkObject_update [OF Cons.prems(1) kv]
  have "checkObject (JObj (AList.update (fst kv) (snd kv) d))" .
  from Cons.IH [OF this rest] show ?case by simp
qed

lemma checkKey_no_dot: "checkKey k v \<Longrightarrow> CHR ''.'' \<notin> set k"
  by (auto simp: checkKey_def list_all_iff split: if_splits)

lemma checkObject_no_dots:
  "checkObject (JObj patch) \<Longrightarrow> list_ex (\<lambda>kv. CHR ''.'' \<in> set (fst kv)) patch = False"
  by (auto simp: list_ex_iff list_all_iff dest: checkKey_no_dot)

lemma modify_set_ok:
  assumes s: "stored s" and patch: "checkObject (JObj patch)" and noid: "map_of patch ''_id'' = None"
  shows "\<exists>s'. modify_set patch s = Inr s' \<and> map_of s' = map_of s ++ map_of (rev patch) \<and> stored s'"
proof -
  define s' where "s' = fold (\<lambda>kv. AList.update (fst kv) (snd kv)) patch s"
  from s have ok: "checkObject (JObj s)" by (simp add: stored_def)
  from checkObject_fold [OF ok patch] have ok': "checkObject (JObj s')" by (simp add: s'_def)
  have fields: "map_of s' = map_of s ++ map_of (rev patch)"
    by (simp add: s'_def fold_update_fields)
  from noid have "map_of (rev patch) ''_id'' = None"
    by (simp add: map_of_eq_None_iff)
  with fields have same: "map_of s' ''_id'' = map_of s ''_id''" by (simp add: map_add_def)
  with s have st': "string_id s'" by (simp add: stored_def string_id_def)
  from checkObject_no_dots [OF patch] ok' same stored_primitive [OF s]
  have "modify_set patch s = Inr s'"
    unfolding modify_set_def Let_def s'_def [symmetric] by simp
  with fields ok' st' show ?thesis by (auto simp: stored_def)
qed

lemma wf_coll_replace:
  assumes "wf_coll (pre @ s # post)" and "stored s'" and "map_of s' ''_id'' = map_of s ''_id''"
  shows "wf_coll (pre @ s' # post)"
  using assms by (simp add: wf_coll_def)

lemma update_set_ok:
  assumes wf: "wf_coll coll" and found: "findOne_id i coll = Some s"
    and patch: "checkObject (JObj patch)" and noid: "map_of patch ''_id'' = None"
  shows "\<exists>pre post s'. coll = pre @ s # post
           \<and> update_set i patch coll = Inr (pre @ s' # post)
           \<and> findOne_id i (pre @ s' # post) = Some s'
           \<and> map_of s' = map_of s ++ map_of (rev patch)
           \<and> wf_coll (pre @ s' # post)"
proof -
  from wf_coll_found [OF wf found] have "stored s" .
  from modify_set_ok [OF this patch noid] obtain s' where
    s': "modify_set patch s = Inr s'" "map_of s' = map_of s ++ map_of (rev patch)" "stored s'"
    by blast
  from update_set_found [OF found s'(1)] obtain pre post where
    p: "coll = pre @ s # post" "update_set i patch coll = Inr (pre @ s' # post)"
       "findOne_id i (pre @ s' # post) = Some s'" by blast
  from wf p(1) have "wf_coll (pre @ s # post)" by simp
  from wf_coll_replace [OF this s'(3) modify_set_id [OF s'(1)]] have "wf_coll (pre @ s' # post)" .
  with p s'(2) show ?thesis by blast
qed

lemma js_or_None: "js_or a b = None \<Longrightarrow> b = None"
  by (cases "truthy a") (auto simp: js_or_def dest: truthy_Some)

lemma checkObject_new_event:
  assumes "valid_body b"
  shows "checkObject (new_event e (body_or_empty b))"
proof -
  obtain vt where vt: "js_or (field (body_or_empty b) ''time'') (Some (JStr (iso_now e))) = Some vt"
    "checkObject vt" using js_or_default_valid [OF assms, of "JStr (iso_now e)" "''time''"] by auto
  obtain vs where vs: "js_or (field (body_or_empty b) ''status'') (Some (JStr ''In Transit'')) = Some vs"
    "checkObject vs" using js_or_default_valid [OF assms, of "JStr ''In Transit''" "''status''"] by auto
  obtain vl where vl: "js_or (field (body_or_empty b) ''location'') (Some (JStr [])) = Some vl"
    "checkObject vl" using js_or_default_valid [OF assms, of "JStr []" "''location''"] by auto
  obtain vn where vn: "js_or (field (body_or_empty b) ''note'') (Some (JStr [])) = Some vn"
    "checkObject vn" using js_or_default_valid [OF assms, of "JStr []" "''note''"] by auto
  show ?thesis
    by (simp add: new_event_def vt vs vl vn checkKey_def)
qed

lemma new_event_status:
  "field (new_event e body) ''status'' = js_or (field body ''status'') (Some (JStr ''In Transit''))"
proof -
  obtain vt where vt: "js_or (field body ''time'') (Some (JStr (iso_now e))) = Some vt"
    by (cases "truthy (field body ''time'')") (auto simp: js_or_def dest: truthy_Some)
  obtain vs where vs: "js_or (field body ''status'') (Some (JStr ''In Transit'')) = Some vs"
    by (cases "truthy (field body ''status'')") (auto simp: js_or_def dest: truthy_Some)
  show ?thesis
    unfolding new_event_def vt vs by (simp add: field_def)
qed

lemma stored_events_valid:
  assumes "stored s"
  shows "list_all checkObject (array_or_empty (map_of s ''events''))"
proof (cases "map_of s ''events''")
  case None
  then show ?thesis by simp
next
  case (Some v)
  from assms have "checkObject (JObj s)" by (simp add: stored_def)
  from checkObject_field [OF this Some] have "checkObject v" .
  with Some show ?thesis by (cases v) simp_all
qed

lemma post_event_result:
  assumes wf: "wf_coll (shipments st)"
    and found: "findOne_id i (shipments st) = Some s"
    and valid: "valid_body b"
  shows "\<exists>pre post s'. shipments st = pre @ s # post
           \<and> post_event e st i b = Inr (st\<lparr>shipments := pre @ s' # post\<rparr>, Response 201 (JObj s'))
           \<and> findOne_id i (pre @ s' # post) = Some s'
           \<and> wf_coll (pre @ s' # post)
           \<and> map_of s' =
               (map_of s)
                 (''events'' \<mapsto> JArr (new_event e (body_or_empty b) # array_or_empty (map_of s ''events'')),
                  ''updatedAt'' \<mapsto> JStr (iso_later e),
                  ''status'' := js_or (field (body_or_empty b) ''status'') (map_of s ''status''))"
proof -
  define body where "body = body_or_empty b"
  define evs where "evs = new_event e body # array_or_empty (map_of s ''events'')"
  define status where "status = js_or (field body ''status'') (map_of s ''status'')"
  define patch where
    "patch = object [(''events'', Some (JArr evs)), (''updatedAt'', Some (JStr (iso_later e))),
                     (''status'', status)]"
  from wf_coll_found [OF wf found] have s: "stored s" .
  then have ok: "checkObject (JObj s)" by (simp add: stored_def)
  have evs_ok: "checkObject (JArr evs)"
    using checkObject_new_event [OF valid, of e] stored_events_valid [OF s]
    by (simp add: evs_def body_def)
  have status_ok: "checkObject v" if "status = Some v" for v
  proof (cases "truthy (field body ''status'')")
    case True
    with that have "field (body_or_empty b) ''status'' = Some v"
      by (simp add: status_def js_or_def body_def)
    from valid_body_field [OF valid this] show ?thesis .
  next
    case False
    with that have "map_of s ''status'' = Some v" by (simp add: status_def js_or_def)
    from checkObject_field [OF ok this] show ?thesis .
  qed
  have patch_ok: "checkObject (JObj patch)" and noid: "map_of patch ''_id'' = None"
    and fields: "map_of s ++ map_of (rev patch)
           = (map_of s)(''events'' \<mapsto> JArr evs, ''updatedAt'' \<mapsto> JStr (iso_later e), ''status'' := status)"
  proof -
    show "checkObject (JObj patch)"
      using evs_ok status_ok by (cases status) (simp_all add: patch_def checkKey_def)
    show "map_of patch ''_id'' = None"
      by (cases status) (simp_all add: patch_def)
    show "map_of s ++ map_of (rev patch)
           = (map_of s)(''events'' \<mapsto> JArr evs, ''updatedAt'' \<mapsto> JStr (iso_later e), ''status'' := status)"
    proof (cases status)
      case None
      then have "map_of s ''status'' = None" by (simp add: status_def js_or_None)
      with None show ?thesis by (auto simp: patch_def map_add_def fun_eq_iff)
    next
      case (Some v)
      then show ?thesis by (auto simp: patch_def map_add_def fun_eq_iff)
    qed
  qed
  from update_set_ok [OF wf found patch_ok noid] obtain pre post s' where
    r: "shipments st = pre @ s # post" "update_set i patch (shipments st) = Inr (pre @ s' # post)"
       "findOne_id i (pre @ s' # post) = Some s'" "map_of s' = map_of s ++ map_of (rev patch)"
       "wf_coll (pre @ s' # post)"
    by blast
  have "post_event e st i b = Inr (st\<lparr>shipments := pre @ s' # post\<rparr>, Response 201 (JObj s'))"
    using found r(2,3)
    by (simp add: post_event_def Let_def patch_def status_def evs_def body_def)
  moreover from r(4) fields have "map_of s' =
      (map_of s)(''events'' \<mapsto> JArr evs, ''updatedAt'' \<mapsto> JStr (iso_later e), ''status'' := status)"
    by simp
  ultimately have "shipments st = pre @ s # post
      \<and> post_event e st i b = Inr (st\<lparr>shipments := pre @ s' # post\<rparr>, Response 201 (JObj s'))
      \<and> findOne_id i (pre @ s' # post) = Some s'
      \<and> wf_coll (pre @ s' # post)
      \<and> map_of s' =
          (map_of s)
            (''events'' \<mapsto> JArr (new_event e (body_or_empty b) # array_or_empty (map_of s ''events'')),
             ''updatedAt'' \<mapsto> JStr (iso_later e),
             ''status'' := js_or (field (body_or_empty b) ''status'') (map_of s ''status''))"
    using r(1,3,5) by (simp add: evs_def status_def body_def)
  then show ?thesis by blast
qed

text \<open>The example state is well formed.\<close>

lemma example_state_wf: "wf_coll (shipments example_state)"
  by (simp add: wf_coll_def stored_def string_id_def checkKey_def example_state_def
      example_shipment_def)

lemma example_state_found: "findOne_id ''id1'' (shipments example_state) = Some example_shipment"
  by (simp add: findOne_id_def has_id_def example_state_def example_shipment_def)

text \<open>Evaluating the rendering of a number.\<close>

lemma toString_radix_digit: "n < b \<Longrightarrow> toString_radix b n = [digit_char n]"
  by (simp add: toString_radix.simps)

lemma toString_radix_step:
  "2 \<le> b \<Longrightarrow> b \<le> n \<Longrightarrow> toString_radix b n = toString_radix b (n div b) @ [digit_char (n mod b)]"
  by (subst toString_radix.simps) simp

lemma example_base36: "toString_radix 36 1704067200000 = ''lqu5m2o0''"
  by (simp add: toString_radix_digit toString_radix_step digit_char_def)

lemma example_trackingNumber: "trackingNumber example_env = ''SCLQU5M2O0ABCDEFGHJK''"
  by (simp add: trackingNumber_def example_env_def example_base36 toUpperCase_char_def)

subsection \<open>Patching a shipment that does not exist\<close>

lemma update_first_no_match: "find p coll = None \<Longrightarrow> update_first p f coll = Inr coll"
  by (induction coll) (auto split: if_splits)

text \<open>
  C1. The claim is that \<^verbatim>\<open>PATCH /api/shipments/:id\<close> answers 404 \<^verbatim>\<open>not_found\<close> for an id
  that names no shipment. The handler does not test the result of \<^verbatim>\<open>findOne\<close>, unlike the
  two event handlers: for every such id and every body it answers 200 with the body
  \<^verbatim>\<open>null\<close>, and leaves the store as it was.
\<close>

theorem patch_shipment_missing_id:
  "findOne_id i (shipments st) = None \<Longrightarrow> patch_shipment e st i b = Inr (st, Response 200 JNull)"
  by (simp add: patch_shipment_def update_set_def findOne_id_def update_first_no_match)

theorem patch_shipment_missing_id_witness:
  "findOne_id ''nope'' (shipments example_state) = None \<and>
   patch_shipment example_env example_state ''nope'' (Some (JObj [(''status'', JStr ''Delivered'')]))
     = Inr (example_state, Response 200 JNull)"
proof -
  have h: "findOne_id ''nope'' (shipments example_state) = None"
    by (simp add: example_state_def example_shipment_def findOne_id_def has_id_def)
  from patch_shipment_missing_id [OF h] h show ?thesis by simp
qed

subsection \<open>Public tracking lookup\<close>

text \<open>
  For a lookup string without special characters, the regular expression the handler
  builds tests equality of the whole string up to case.
\<close>

lemma parse_atoms_literal: "literal t \<Longrightarrow> parse_atoms t = Inr (literally t)"
proof (induction t rule: parse_atoms.induct)
  case 1
  then show ?case by (simp add: literally_def)
next
  case (2 c cs)
  from "2.prems" have c: "c \<notin> set metachars" "c \<noteq> CHR ''.''" and cs: "literal cs"
    by (auto simp: literal_def split: if_splits)
  show ?case
  proof (cases cs)
    case Nil
    with c show ?thesis by (simp add: literally_def)
  next
    case (Cons d rest)
    with cs have "d \<notin> set metachars" by (auto simp: literal_def split: if_splits)
    then have d: "d \<noteq> CHR ''*''" by (auto simp: metachars_def)
    from "2.IH"(2) [OF c(1) refl Cons d] cs have "parse_atoms cs = Inr (literally cs)"
      by simp
    with c d Cons show ?thesis by (simp add: literally_def)
  qed
qed

lemma regex_test_literal:
  "regex_test (literally t) s = (map toUpperCase_char s = map toUpperCase_char t)"
proof (induction t arbitrary: s)
  case Nil
  then show ?case by (simp add: literally_def)
next
  case (Cons c t)
  from Cons [unfolded literally_def] show ?case
    by (cases s) (auto simp: literally_def)
qed

lemma RegExp_i_literal: "literal t \<Longrightarrow> RegExp_i (''^'' @ t @ ''$'') = Inr (literally t)"
  by (simp add: RegExp_i_def parse_atoms_literal butlast_append)

lemma track_literal:
  assumes "literal (trim param)"
  shows "track st param =
           (case find (has_trackingNumber (literally (trim param))) (getAll (shipments st)) of
              None \<Rightarrow> Inr (st, Response 404 (error_body ''not_found''))
            | Some s \<Rightarrow> Inr (st, Response 200 (JObj s)))"
  using RegExp_i_literal [OF assms] by (simp add: track_def)

lemma getAll_example: "getAll (shipments example_state) = [example_shipment]"
proof -
  have "map_of example_shipment ''_id'' = Some (JStr ''id1'')" by (simp add: example_shipment_def)
  from getAll_single [OF _ this] show ?thesis by (simp add: example_state_def)
qed

text \<open>
  C2. The claim is that the lookup returns a shipment only if its tracking number equals
  the trimmed lookup string up to case, never by a pattern match. The handler puts the
  lookup string into the regular expression as it is, so its special characters act as a
  pattern: \<^verbatim>\<open>GET /api/track/.*\<close> returns a shipment whose tracking number is not \<^verbatim>\<open>.*\<close>.
\<close>

theorem track_wildcard:
  "track example_state ''.*'' = Inr (example_state, Response 200 (JObj example_shipment))
   \<and> map_of example_shipment ''trackingNumber'' = Some (JStr ''SC1ABCDEF234'')
   \<and> map toUpperCase_char ''.*'' \<noteq> map toUpperCase_char ''SC1ABCDEF234''"
  by (simp add: track_def getAll_example trim_def is_space_def RegExp_i_def metachars_def
      has_trackingNumber_def example_shipment_def)


subsection \<open>Creating a shipment\<close>


lemma object_keys: "fst ` set (object kvs) \<subseteq> fst ` set kvs"
  by (induction kvs rule: object.induct) auto

lemma map_of_object:
  "distinct (map fst kvs) \<Longrightarrow> map_of (object kvs) k = (case map_of kvs k of None \<Rightarrow> None | Some v \<Rightarrow> v)"
proof (induction kvs rule: object.induct)
  case 1
  then show ?case by simp
next
  case (2 k' kvs)
  from 2 have IH: "map_of (object kvs) k = (case map_of kvs k of None \<Rightarrow> None | Some v \<Rightarrow> v)"
    by simp
  from 2(2) object_keys [of kvs] have "k' \<notin> fst ` set (object kvs)" by auto
  then have "map_of (object kvs) k' = None" by (simp add: map_of_eq_None_iff)
  with IH show ?case by (cases "k = k'") auto
next
  case (3 k' v kvs)
  then show ?case by simp
qed







lemma isArray_truthy: "isArray v \<Longrightarrow> truthy v"
  by (cases v rule: isArray.cases) simp_all


lemma new_shipment_fields:
  "map_of (new_shipment e body) ''trackingNumber'' = Some (JStr (trackingNumber e))"
  "map_of (new_shipment e body) ''status'' = js_or (field body ''status'') (Some (JStr ''Created''))"
  "map_of (new_shipment e body) ''events''
     = (if isArray (field body ''events'') then field body ''events''
        else Some (JArr [created_event e body]))"
  "map_of (new_shipment e body) ''_id'' = None"
  by (auto simp: new_shipment_def map_of_object dest: isArray_truthy)








subsection \<open>The tracking number of a shipment\<close>

lemma modify_set_keeps:
  assumes "modify_set patch d = Inr d'" and "map_of patch k = None"
  shows "map_of d' k = map_of d k"
proof -
  from assms(1) have "d' = fold (\<lambda>kv. AList.update (fst kv) (snd kv)) patch d"
    by (auto simp: modify_set_def Let_def split: if_splits)
  then have "map_of d' = map_of d ++ map_of (rev patch)" by (simp add: fold_update_fields)
  moreover from assms(2) have "map_of (rev patch) k = None" by (simp add: map_of_eq_None_iff)
  ultimately show ?thesis by (simp add: map_add_def)
qed

lemma update_first_keeps:
  assumes "update_first p f coll = Inr coll'" and "\<And>d d'. f d = Inr d' \<Longrightarrow> g d' = g d"
  shows "map g coll' = map g coll"
  using assms(1)
proof (induction coll arbitrary: coll')
  case Nil
  then show ?case by simp
next
  case (Cons x xs)
  show ?case
  proof (cases "p x")
    case True
    with Cons.prems obtain x' where "f x = Inr x'" "coll' = x' # xs"
      by (auto split: sum.splits)
    with assms(2) [of x x'] show ?thesis by simp
  next
    case False
    with Cons.prems obtain xs' where "update_first p f xs = Inr xs'" "coll' = x # xs'"
      by (auto split: sum.splits)
    with Cons.IH [of xs'] show ?thesis by simp
  qed
qed

lemma update_set_keeps:
  assumes "update_set i patch coll = Inr coll'" and "map_of patch k = None"
  shows "map (\<lambda>d. map_of d k) coll' = map (\<lambda>d. map_of d k) coll"
proof (rule update_first_keeps)
  from assms(1) show "update_first (has_id i) (modify_set patch) coll = Inr coll'"
    by (simp add: update_set_def)
  show "map_of d' k = map_of d k" if "modify_set patch d = Inr d'" for d d'
    using that assms(2) by (rule modify_set_keeps)
qed

lemma post_event_tracking:
  "tracking_numbers (state_after st (post_event e st i b)) = tracking_numbers st"
proof (cases "findOne_id i (shipments st)")
  case None
  then show ?thesis by (simp add: post_event_def state_after_def)
next
  case (Some s)
  define patch where
    "patch = object
       [(''events'', Some (JArr (new_event e (body_or_empty b) # array_or_empty (map_of s ''events'')))),
        (''updatedAt'', Some (JStr (iso_later e))),
        (''status'', js_or (field (body_or_empty b) ''status'') (map_of s ''status''))]"
  have none: "map_of patch ''trackingNumber'' = None"
    by (simp add: patch_def map_of_object)
  show ?thesis
  proof (cases "update_set i patch (shipments st)")
    case (Inl err)
    with Some show ?thesis by (simp add: post_event_def state_after_def patch_def)
  next
    case (Inr coll)
    from update_set_keeps [OF Inr none] Some Inr show ?thesis
      by (simp add: post_event_def state_after_def patch_def tracking_numbers_def)
  qed
qed

lemma delete_event_tracking:
  "tracking_numbers (state_after st (delete_event e st i eventId)) = tracking_numbers st"
proof (cases "findOne_id i (shipments st)")
  case None
  then show ?thesis by (simp add: delete_event_def state_after_def)
next
  case (Some s)
  show ?thesis
  proof (cases "filter_events eventId (map_of s ''events'')")
    case (Inl err)
    with Some show ?thesis by (simp add: delete_event_def state_after_def)
  next
    case kept: (Inr evs)
    define patch where
      "patch = object [(''events'', Some (JArr evs)), (''updatedAt'', Some (JStr (iso_now e)))]"
    have none: "map_of patch ''trackingNumber'' = None"
      by (simp add: patch_def)
    show ?thesis
    proof (cases "update_set i patch (shipments st)")
      case (Inl err)
      with Some kept show ?thesis by (simp add: delete_event_def state_after_def patch_def)
    next
      case (Inr coll)
      from update_set_keeps [OF Inr none] Some kept Inr show ?thesis
        by (simp add: delete_event_def state_after_def patch_def tracking_numbers_def)
    qed
  qed
qed

lemma patch_shipment_tracking:
  assumes "field (body_or_empty b) ''trackingNumber'' = None"
  shows "tracking_numbers (state_after st (patch_shipment e st i b)) = tracking_numbers st"
proof -
  define patch where
    "patch = AList.update ''updatedAt'' (JStr (iso_now e)) (fields_of (body_or_empty b))"
  from assms have none: "map_of patch ''trackingNumber'' = None"
    by (simp add: patch_def update_conv' field_def)
  show ?thesis
  proof (cases "update_set i patch (shipments st)")
    case (Inl err)
    then show ?thesis by (simp add: patch_shipment_def state_after_def patch_def)
  next
    case (Inr coll)
    from update_set_keeps [OF Inr none] Inr show ?thesis
      by (simp add: patch_shipment_def state_after_def patch_def tracking_numbers_def)
  qed
qed

lemma post_shipment_tracking:
  "tracking_numbers (state_after st (post_shipment e st b))
     = tracking_numbers st
       @ (case post_shipment e st b of Inl err \<Rightarrow> [] | Inr r \<Rightarrow> [Some (JStr (trackingNumber e))])"
proof (cases "insert_doc (fresh_id e) (new_shipment e (body_or_empty b)) (shipments st)")
  case (Inl err)
  then show ?thesis by (simp add: post_shipment_def state_after_def)
next
  case (Inr r)
  obtain coll d where r: "r = (coll, d)" by (cases r)
  from insert_doc_Inr(1,2) [OF Inr [unfolded r] new_shipment_fields(4)]
  have coll: "coll = shipments st @ [d]"
    and d: "d = fields_of (deepCopy (JObj (new_shipment e (body_or_empty b))))
                @ [(''_id'', JStr (fresh_id e))]" .
  have "map_of d ''trackingNumber'' = Some (JStr (trackingNumber e))"
    unfolding d by (simp only: map_of_inserted) (simp add: new_shipment_fields)
  with coll have "map (\<lambda>d. map_of d ''trackingNumber'') coll
      = map (\<lambda>d. map_of d ''trackingNumber'') (shipments st) @ [Some (JStr (trackingNumber e))]"
    by simp
  with Inr r show ?thesis
    by (simp add: post_shipment_def state_after_def tracking_numbers_def)
qed


text \<open>
  C4. The claim is that no operation after creation changes the tracking number of a
  shipment and that tracking numbers stay unique. \<^verbatim>\<open>PATCH /api/shipments/:id\<close> hands the
  whole body to \<^verbatim>\<open>$set\<close>: a body with a \<^verbatim>\<open>trackingNumber\<close> overwrites the stored one, here
  with the number of another shipment.
\<close>

theorem patch_shipment_overwrites_trackingNumber:
  "tracking_numbers two_shipments = [Some (JStr ''SC1ABCDEF234''), Some (JStr ''SC2ZYXWVU987'')]
   \<and> tracking_numbers (state_after two_shipments
         (patch_shipment example_env two_shipments ''id3'' renumber_body))
       = [Some (JStr ''SC1ABCDEF234''), Some (JStr ''SC1ABCDEF234'')]"
  by (simp add: tracking_numbers_def two_shipments_def example_shipment_def second_shipment_def
      renumber_body_def patch_shipment_def update_set_def modify_set_def has_id_def findOne_id_def
      body_or_empty_def js_or_def checkKey_def state_after_def)

text \<open>
  C4, amended. Appending an event, removing an event, and a patch whose body has valid
  field names, none of them \<^verbatim>\<open>trackingNumber\<close>, leave the tracking number of every stored
  shipment as it is, whatever their outcome. Creation gives the new shipment the generated tracking number,
  whatever the body holds, and adds nothing when it fails. So these operations keep
  distinct tracking numbers distinct, provided the generated number is not in the store.
\<close>

theorem trackingNumber_kept:
  "tracking_numbers (state_after st (post_event e st i b)) = tracking_numbers st
   \<and> tracking_numbers (state_after st (delete_event e st i eventId)) = tracking_numbers st
   \<and> (valid_body b \<and> field (body_or_empty b) ''trackingNumber'' = None
        \<longrightarrow> tracking_numbers (state_after st (patch_shipment e st i b)) = tracking_numbers st)
   \<and> tracking_numbers (state_after st (post_shipment e st b))
       = tracking_numbers st
         @ (case post_shipment e st b of Inl err \<Rightarrow> [] | Inr r \<Rightarrow> [Some (JStr (trackingNumber e))])
   \<and> (distinct (tracking_numbers st) \<and> Some (JStr (trackingNumber e)) \<notin> set (tracking_numbers st)
        \<longrightarrow> distinct (tracking_numbers (state_after st (post_shipment e st b))))"
proof -
  have "distinct (tracking_numbers (state_after st (post_shipment e st b)))"
    if "distinct (tracking_numbers st)" "Some (JStr (trackingNumber e)) \<notin> set (tracking_numbers st)"
    using that by (simp add: post_shipment_tracking split: sum.splits)
  with post_event_tracking delete_event_tracking patch_shipment_tracking post_shipment_tracking
  show ?thesis by blast
qed

theorem trackingNumber_kept_witness:
  "valid_body create_body
   \<and> field (body_or_empty create_body) ''trackingNumber'' = None
   \<and> distinct (tracking_numbers example_state)
   \<and> Some (JStr (trackingNumber example_env)) \<notin> set (tracking_numbers example_state)
   \<and> tracking_numbers (state_after example_state
         (patch_shipment example_env example_state ''id1'' create_body))
       = tracking_numbers example_state
   \<and> distinct (tracking_numbers (state_after example_state
         (post_shipment example_env example_state create_body)))"
proof -
  have h0: "valid_body create_body"
    by (simp add: valid_body_def create_body_def body_or_empty_def js_or_def checkKey_def)
  have h1: "field (body_or_empty create_body) ''trackingNumber'' = None"
    by (simp add: create_body_def body_or_empty_def js_or_def field_def)
  have h2: "distinct (tracking_numbers example_state)"
    by (simp add: tracking_numbers_def example_state_def)
  have h3: "Some (JStr (trackingNumber example_env)) \<notin> set (tracking_numbers example_state)"
    by (simp add: example_trackingNumber tracking_numbers_def example_state_def example_shipment_def)
  note kept = trackingNumber_kept [of example_state example_env "''id1''" create_body "''EV1''"]
  from kept h0 h1 have patched: "tracking_numbers (state_after example_state
         (patch_shipment example_env example_state ''id1'' create_body))
       = tracking_numbers example_state"
    by (elim conjE) (erule mp, intro conjI)
  from kept h2 h3 have "distinct (tracking_numbers (state_after example_state
         (post_shipment example_env example_state create_body)))"
    by (elim conjE) (erule mp, intro conjI)
  with h0 h1 h2 h3 patched show ?thesis by (intro conjI)
qed

subsection \<open>Appending an event\<close>



text \<open>
  C10. An empty string as status counts as no status: the new event, at the front of the
  events, has status \<^verbatim>\<open>In Transit\<close>, and the status of the shipment is as before.
\<close>

theorem post_event_empty_status:
  assumes wf: "wf_coll (shipments st)"
    and found: "findOne_id i (shipments st) = Some s"
    and valid: "valid_body b"
    and empty: "field (body_or_empty b) ''status'' = Some (JStr [])"
  shows "\<exists>st' s'. post_event e st i b = Inr (st', Response 201 (JObj s'))
           \<and> findOne_id i (shipments st') = Some s'
           \<and> map_of s' ''events''
               = Some (JArr (new_event e (body_or_empty b) # array_or_empty (map_of s ''events'')))
           \<and> field (new_event e (body_or_empty b)) ''status'' = Some (JStr ''In Transit'')
           \<and> map_of s' ''status'' = map_of s ''status''"
proof -
  from post_event_result [OF wf found valid, of e] obtain pre post s' where
    r: "post_event e st i b = Inr (st\<lparr>shipments := pre @ s' # post\<rparr>, Response 201 (JObj s'))"
       "findOne_id i (pre @ s' # post) = Some s'"
       "map_of s' =
          (map_of s)
            (''events'' \<mapsto> JArr (new_event e (body_or_empty b) # array_or_empty (map_of s ''events'')),
             ''updatedAt'' \<mapsto> JStr (iso_later e),
             ''status'' := js_or (field (body_or_empty b) ''status'') (map_of s ''status''))"
    by blast
  have "post_event e st i b = Inr (st\<lparr>shipments := pre @ s' # post\<rparr>, Response 201 (JObj s'))
      \<and> findOne_id i (shipments (st\<lparr>shipments := pre @ s' # post\<rparr>)) = Some s'
      \<and> map_of s' ''events''
          = Some (JArr (new_event e (body_or_empty b) # array_or_empty (map_of s ''events'')))
      \<and> field (new_event e (body_or_empty b)) ''status'' = Some (JStr ''In Transit'')
      \<and> map_of s' ''status'' = map_of s ''status''"
    using r(1,2) by (simp add: r(3) new_event_status js_or_def empty)
  then show ?thesis by blast
qed

theorem post_event_empty_status_witness:
  "wf_coll (shipments example_state)
   \<and> findOne_id ''id1'' (shipments example_state) = Some example_shipment
   \<and> valid_body (Some (JObj [(''status'', JStr [])]))
   \<and> field (body_or_empty (Some (JObj [(''status'', JStr [])]))) ''status'' = Some (JStr [])
   \<and> (\<exists>st' s'. post_event example_env example_state ''id1'' (Some (JObj [(''status'', JStr [])]))
                = Inr (st', Response 201 (JObj s'))
            \<and> field (new_event example_env (body_or_empty (Some (JObj [(''status'', JStr [])]))))
                  ''status'' = Some (JStr ''In Transit'')
            \<and> map_of s' ''status'' = Some (JStr ''In Transit''))"
proof -
  let ?b = "Some (JObj [(''status'', JStr [])])"
  have body: "body_or_empty ?b = JObj [(''status'', JStr [])]"
    by (simp add: body_or_empty_def js_or_def)
  have valid: "valid_body ?b"
    by (simp add: valid_body_def body checkKey_def)
  have empty: "field (body_or_empty ?b) ''status'' = Some (JStr [])"
    by (simp add: body field_def)
  have old: "map_of example_shipment ''status'' = Some (JStr ''In Transit'')"
    by (simp add: example_shipment_def)
  from post_event_empty_status [OF example_state_wf example_state_found valid empty, of example_env]
  show ?thesis
    using example_state_wf example_state_found valid empty unfolding old by blast
qed

subsection \<open>Removing an event\<close>








subsection \<open>Registration\<close>


lemma register_closed:
  assumes "getAll (users st) \<noteq> []"
    and "truthy (field (body_or_empty b) ''email'')" and "truthy (field (body_or_empty b) ''password'')"
  shows "register e st b = Inr (st, Response 403 (error_body ''registration_closed''))"
  using assms by (simp add: register_def)

lemma register_users:
  "getAll (users st) \<noteq> [] \<Longrightarrow> users (state_after st (register e st b)) = users st"
  by (simp add: register_def state_after_def Let_def)

lemma login_state: "state_after st (login e st b) = st"
  by (simp add: login_def state_after_def Let_def split: option.splits json.splits)

lemma track_state: "state_after st (track st t) = st"
  by (simp add: track_def state_after_def Let_def split: option.splits sum.splits)

lemma post_quote_users: "users (state_after st (post_quote e st b)) = users st"
  by (simp add: post_quote_def state_after_def Let_def split: sum.splits prod.splits)

lemma patch_quote_users: "users (state_after st (patch_quote st i b)) = users st"
  by (simp add: patch_quote_def state_after_def Let_def split: sum.splits)

lemma delete_quote_users: "users (state_after st (delete_quote st i)) = users st"
  by (simp add: delete_quote_def state_after_def)

lemma post_shipment_users: "users (state_after st (post_shipment e st b)) = users st"
  by (simp add: post_shipment_def state_after_def Let_def split: sum.splits prod.splits)

lemma patch_shipment_users: "users (state_after st (patch_shipment e st i b)) = users st"
  by (simp add: patch_shipment_def state_after_def Let_def split: sum.splits)

lemma delete_shipment_users: "users (state_after st (delete_shipment st i)) = users st"
  by (simp add: delete_shipment_def state_after_def)

lemma post_event_users: "users (state_after st (post_event e st i b)) = users st"
  by (simp add: post_event_def state_after_def Let_def split: sum.splits option.splits)

lemma delete_event_users: "users (state_after st (delete_event e st i eventId)) = users st"
  by (simp add: delete_event_def state_after_def Let_def split: sum.splits option.splits)

lemma protected_users:
  "users (state_after st h) = users st \<Longrightarrow> users (state_after st (protected e a st h)) = users st"
  by (simp add: protected_def state_after_def split: option.splits)

lemma handle_users:
  "getAll (users st) \<noteq> [] \<Longrightarrow> users (state_after st (handle e a st r)) = users st"
  by (cases r)
     (simp_all add: register_users login_state track_state post_quote_users patch_quote_users
        delete_quote_users post_shipment_users patch_shipment_users delete_shipment_users
        post_event_users delete_event_users protected_users)

lemma run_users: "getAll (users st) \<noteq> [] \<Longrightarrow> users (run st rs) = users st"
proof (induction rs arbitrary: st)
  case Nil
  then show ?case by simp
next
  case (Cons x rs)
  obtain e a r where x: "x = (e, a, r)" by (cases x)
  from handle_users [OF Cons.prems, of e a r]
  have same: "users (state_after st (handle e a st r)) = users st" .
  with Cons.prems have "getAll (users (state_after st (handle e a st r))) \<noteq> []" by simp
  from Cons.IH [OF this] same show ?case by (simp add: x)
qed

lemma register_first:
  assumes none: "users st = []"
    and email: "field (body_or_empty b) ''email'' = Some (JStr m)" "m \<noteq> []"
    and password: "field (body_or_empty b) ''password'' = Some (JStr p)" "p \<noteq> []"
  shows "register e st b
           = Inr (st\<lparr>users := [[(''email'', JStr (map toLowerCase_char m)),
                                   (''password'', JStr (bcrypt_hash e p)),
                                   (''role'', JStr ''admin''),
                                   (''createdAt'', JStr (iso_now e)),
                                   (''_id'', JStr (fresh_id e))]]\<rparr>,
                  Response 200
                    (JObj [(''token'',
                            JStr (jwt_sign e (JObj [(''sub'', JStr (fresh_id e)),
                                                    (''email'', JStr (map toLowerCase_char m))]))),
                           (''user'', JObj [(''id'', JStr (fresh_id e)),
                                            (''email'', JStr (map toLowerCase_char m))])]))"
  using assms
  by (simp add: register_def getAll_def index_entries_def insert_doc_def id_taken_def checkKey_def
      signToken_def user_json_def Let_def)

text \<open>
  C7. With no credential stored, a registration whose body holds an email and a password
  (non-empty strings) answers 200 and stores exactly one credential: the email in lower
  case, the hash of the password, the role \<^verbatim>\<open>admin\<close>, the time and the \<^verbatim>\<open>_id\<close> the datastore
  generates. The answer holds the token signed for that \<^verbatim>\<open>_id\<close> and email, and the two as
  the user. From then on, after any sequence of requests, a registration that supplies an
  email and a password (any truthy values) answers 403 \<^verbatim>\<open>registration_closed\<close> and leaves
  the state as it is.
\<close>

theorem register_once:
  assumes none: "users st = []"
    and email: "field (body_or_empty b) ''email'' = Some (JStr m)" "m \<noteq> []"
    and password: "field (body_or_empty b) ''password'' = Some (JStr p)" "p \<noteq> []"
  shows "register e st b
           = Inr (st\<lparr>users := [[(''email'', JStr (map toLowerCase_char m)),
                                   (''password'', JStr (bcrypt_hash e p)),
                                   (''role'', JStr ''admin''),
                                   (''createdAt'', JStr (iso_now e)),
                                   (''_id'', JStr (fresh_id e))]]\<rparr>,
                  Response 200
                    (JObj [(''token'',
                            JStr (jwt_sign e (JObj [(''sub'', JStr (fresh_id e)),
                                                    (''email'', JStr (map toLowerCase_char m))]))),
                           (''user'', JObj [(''id'', JStr (fresh_id e)),
                                            (''email'', JStr (map toLowerCase_char m))])]))
         \<and> (\<forall>rs e' b'.
               truthy (field (body_or_empty b') ''email'')
               \<and> truthy (field (body_or_empty b') ''password'')
               \<longrightarrow> register e' (run (state_after st (register e st b)) rs) b'
                     = Inr (run (state_after st (register e st b)) rs,
                            Response 403 (error_body ''registration_closed'')))"
proof -
  define u where
    "u = [(''email'', JStr (map toLowerCase_char m)), (''password'', JStr (bcrypt_hash e p)),
          (''role'', JStr ''admin''), (''createdAt'', JStr (iso_now e)), (''_id'', JStr (fresh_id e))]"
  define r where
    "r = Response 200
           (JObj [(''token'',
                   JStr (jwt_sign e (JObj [(''sub'', JStr (fresh_id e)),
                                           (''email'', JStr (map toLowerCase_char m))]))),
                  (''user'', JObj [(''id'', JStr (fresh_id e)),
                                   (''email'', JStr (map toLowerCase_char m))])])"
  have first: "register e st b = Inr (st\<lparr>users := [u]\<rparr>, r)"
    using register_first [OF none email password, of e] by (simp only: u_def r_def)
  then have after: "state_after st (register e st b) = st\<lparr>users := [u]\<rparr>"
    by (simp add: state_after_def)
  have later: "register e' (run (state_after st (register e st b)) rs) b'
      = Inr (run (state_after st (register e st b)) rs, Response 403 (error_body ''registration_closed''))"
    if "truthy (field (body_or_empty b') ''email'')" "truthy (field (body_or_empty b') ''password'')"
    for rs e' b'
  proof -
    have "map_of u ''_id'' = Some (JStr (fresh_id e))" by (simp add: u_def)
    from getAll_single [OF _ this] have "getAll (users (st\<lparr>users := [u]\<rparr>)) \<noteq> []" by simp
    from run_users [OF this, of rs] this
    have "getAll (users (run (st\<lparr>users := [u]\<rparr>) rs)) \<noteq> []" by simp
    from register_closed [OF this that] show ?thesis unfolding after .
  qed
  from later have "\<forall>rs e' b'.
               truthy (field (body_or_empty b') ''email'')
               \<and> truthy (field (body_or_empty b') ''password'')
               \<longrightarrow> register e' (run (state_after st (register e st b)) rs) b'
                     = Inr (run (state_after st (register e st b)) rs,
                            Response 403 (error_body ''registration_closed''))"
    by (intro allI impI) (elim conjE)
  with first show ?thesis unfolding u_def r_def by (intro conjI)
qed

theorem register_once_witness:
  "users example_state = []
   \<and> field (body_or_empty register_body) ''email'' = Some (JStr ''A@b.com'') \<and> ''A@b.com'' \<noteq> []
   \<and> field (body_or_empty register_body) ''password'' = Some (JStr ''secret1'') \<and> ''secret1'' \<noteq> []
   \<and> truthy (field (body_or_empty other_register_body) ''email'')
   \<and> truthy (field (body_or_empty other_register_body) ''password'')
   \<and> register example_env example_state register_body
       = Inr (example_state\<lparr>users := [[(''email'', JStr ''a@b.com''),
                                          (''password'', JStr ''hash:secret1''),
                                          (''role'', JStr ''admin''),
                                          (''createdAt'', JStr ''2024-01-01T00:00:00.000Z''),
                                          (''_id'', JStr ''id2'')]]\<rparr>,
              Response 200
                (JObj [(''token'', JStr ''token:id2:a@b.com''),
                       (''user'', JObj [(''id'', JStr ''id2''), (''email'', JStr ''a@b.com'')])]))
   \<and> register example_env
         (run (state_after example_state (register example_env example_state register_body))
            [(example_env, None, PostQuote create_body)])
         other_register_body
       = Inr (run (state_after example_state (register example_env example_state register_body))
                [(example_env, None, PostQuote create_body)],
              Response 403 (error_body ''registration_closed''))"
proof -
  have h0: "users example_state = []" by (simp add: example_state_def)
  have h1: "field (body_or_empty register_body) ''email'' = Some (JStr ''A@b.com'')"
    and h2: "''A@b.com'' \<noteq> []"
    and h3: "field (body_or_empty register_body) ''password'' = Some (JStr ''secret1'')"
    and h4: "''secret1'' \<noteq> []"
    by (simp_all add: register_body_def body_or_empty_def js_or_def field_def)
  have h5: "truthy (field (body_or_empty other_register_body) ''email'')"
    and h6: "truthy (field (body_or_empty other_register_body) ''password'')"
    by (simp_all add: other_register_body_def body_or_empty_def js_or_def field_def)
  have lower: "map toLowerCase_char ''A@b.com'' = ''a@b.com''"
    by (simp add: toLowerCase_char_def)
  have env: "bcrypt_hash example_env ''secret1'' = ''hash:secret1''"
    "iso_now example_env = ''2024-01-01T00:00:00.000Z''" "fresh_id example_env = ''id2''"
    "jwt_sign example_env (JObj [(''sub'', JStr ''id2''), (''email'', JStr ''a@b.com'')])
       = ''token:id2:a@b.com''"
    by (simp_all add: example_env_def field_def)
  note once = register_once [OF h0 h1 h2 h3 h4, of example_env, unfolded lower env]
  from once have first: "register example_env example_state register_body
       = Inr (example_state\<lparr>users := [[(''email'', JStr ''a@b.com''),
                                          (''password'', JStr ''hash:secret1''),
                                          (''role'', JStr ''admin''),
                                          (''createdAt'', JStr ''2024-01-01T00:00:00.000Z''),
                                          (''_id'', JStr ''id2'')]]\<rparr>,
              Response 200
                (JObj [(''token'', JStr ''token:id2:a@b.com''),
                       (''user'', JObj [(''id'', JStr ''id2''), (''email'', JStr ''a@b.com'')])]))"
    by (rule conjunct1)
  from once have later: "\<forall>rs e' b'.
        truthy (field (body_or_empty b') ''email'') \<and> truthy (field (body_or_empty b') ''password'')
        \<longrightarrow> register e' (run (state_after example_state
                                 (register example_env example_state register_body)) rs) b'
              = Inr (run (state_after example_state
                            (register example_env example_state register_body)) rs,
                     Response 403 (error_body ''registration_closed''))"
    by (rule conjunct2)
  from later [rule_format, OF conjI [OF h5 h6],
      of example_env "[(example_env, None, PostQuote create_body)]"]
  have closed: "register example_env
         (run (state_after example_state (register example_env example_state register_body))
            [(example_env, None, PostQuote create_body)])
         other_register_body
       = Inr (run (state_after example_state (register example_env example_state register_body))
                [(example_env, None, PostQuote create_body)],
              Response 403 (error_body ''registration_closed''))" .
  from h0 h1 h2 h3 h4 h5 h6 first closed show ?thesis by (intro conjI)
qed


subsection \<open>Creating a quote\<close>







subsection \<open>Deleting a shipment\<close>

lemma has_id_string: "string_id d \<Longrightarrow> has_id i d = (map_of d ''_id'' = Some (JStr i))"
  by (auto simp: string_id_def has_id_def split: option.splits json.splits)

lemma remove_first_absent:
  "list_all string_id coll \<Longrightarrow> distinct (map (\<lambda>d. map_of d ''_id'') coll) \<Longrightarrow>
   find (has_id i) (remove_first (has_id i) coll) = None"
proof (induction coll)
  case Nil
  then show ?case by simp
next
  case (Cons d ds)
  show ?case
  proof (cases "has_id i d")
    case True
    have "\<not> has_id i x" if "x \<in> set ds" for x
    proof
      assume hx: "has_id i x"
      from Cons.prems(1) that have "string_id x" by (simp add: list_all_iff)
      with hx have "map_of x ''_id'' = Some (JStr i)" by (simp add: has_id_string)
      moreover from Cons.prems(1) True have "map_of d ''_id'' = Some (JStr i)"
        by (simp add: has_id_string)
      ultimately have "map_of d ''_id'' \<in> (\<lambda>d. map_of d ''_id'') ` set ds" using that by force
      with Cons.prems(2) show False by simp
    qed
    then have "find (has_id i) ds = None" by (simp add: find_None_iff)
    with True show ?thesis by simp
  next
    case False
    with Cons show ?thesis by simp
  qed
qed

lemma remove_first_no_match: "find p coll = None \<Longrightarrow> remove_first p coll = coll"
  by (induction coll) (auto split: if_splits)

text \<open>
  C9. \<^verbatim>\<open>DELETE /api/shipments/:id\<close> is idempotent: whether or not a shipment has the id,
  the answer is 200 \<^verbatim>\<open>{ok: true}\<close>; afterwards no shipment has the id, the other
  collections are untouched, and deleting again gives the same answer and changes nothing.
\<close>

theorem delete_shipment_idempotent:
  assumes "wf_coll (shipments st)"
  shows "\<exists>st'. delete_shipment st i = Inr (st', Response 200 ok_body)
           \<and> findOne_id i (shipments st') = None
           \<and> users st' = users st \<and> quotes st' = quotes st
           \<and> delete_shipment st' i = Inr (st', Response 200 ok_body)"
proof -
  let ?st' = "st\<lparr>shipments := remove_first (has_id i) (shipments st)\<rparr>"
  from assms have ids: "list_all string_id (shipments st)"
    and dist: "distinct (map (\<lambda>d. map_of d ''_id'') (shipments st))"
    by (simp_all add: wf_coll_def stored_def list_all_iff)
  have absent: "findOne_id i (shipments ?st') = None"
    using remove_first_absent [OF ids dist] by (simp add: findOne_id_def)
  then have "remove_first (has_id i) (shipments ?st') = shipments ?st'"
    by (simp add: findOne_id_def remove_first_no_match)
  then have again: "delete_shipment ?st' i = Inr (?st', Response 200 ok_body)"
    by (simp add: delete_shipment_def)
  have "delete_shipment st i = Inr (?st', Response 200 ok_body)"
    by (simp add: delete_shipment_def)
  with absent again show ?thesis by (intro exI [of _ ?st']) simp
qed

theorem delete_shipment_idempotent_witness:
  "wf_coll (shipments example_state)
   \<and> delete_shipment example_state ''id1''
       = Inr (example_state\<lparr>shipments := []\<rparr>, Response 200 ok_body)
   \<and> findOne_id ''id1'' (shipments (example_state\<lparr>shipments := []\<rparr>)) = None
   \<and> delete_shipment (example_state\<lparr>shipments := []\<rparr>) ''id1''
       = Inr (example_state\<lparr>shipments := []\<rparr>, Response 200 ok_body)"
proof -
  have wf: "wf_coll (shipments example_state)"
    by (simp add: wf_coll_def stored_def string_id_def checkKey_def example_state_def
        example_shipment_def)
  have first: "delete_shipment example_state ''id1''
                 = Inr (example_state\<lparr>shipments := []\<rparr>, Response 200 ok_body)"
    by (simp add: delete_shipment_def has_id_def example_state_def example_shipment_def)
  from delete_shipment_idempotent [OF wf, of "''id1''"] first wf show ?thesis
    by auto
qed

subsection \<open>Well-formedness is kept\<close>

text \<open>
  The hypothesis that the shipments collection is well formed holds at every moment: the
  empty collection is well formed, the shipments the server seeds an empty collection
  with go through \<^verbatim>\<open>insert\<close> like any other, and every request keeps the collection
  well formed. A request with an
  accepted token reaches its handler.
\<close>

lemma protected_pass: "authMiddleware e a = None \<Longrightarrow> protected e a st h = h"
  by (simp add: protected_def)

lemma authMiddleware_pass:
  "t \<noteq> [] \<Longrightarrow> jwt_verify e t \<Longrightarrow> authMiddleware e (Some (''Bearer '' @ t)) = None"
  by (simp add: authMiddleware_def)

lemma modify_set_stored:
  assumes "modify_set patch d = Inr d'" and "stored d"
  shows "stored d' \<and> map_of d' ''_id'' = map_of d ''_id''"
proof -
  from assms(1) have "checkObject (JObj d')" and same: "map_of d' ''_id'' = map_of d ''_id''"
    by (auto simp: modify_set_def Let_def split: if_splits)
  with assms(2) show ?thesis by (simp add: stored_def string_id_def)
qed

lemma update_first_wf:
  assumes "update_first p f coll = Inr coll'"
    and "\<And>d d'. f d = Inr d' \<Longrightarrow> stored d \<Longrightarrow> stored d' \<and> map_of d' ''_id'' = map_of d ''_id''"
    and "list_all stored coll"
  shows "list_all stored coll' \<and> map (\<lambda>d. map_of d ''_id'') coll' = map (\<lambda>d. map_of d ''_id'') coll"
  using assms(1,3)
proof (induction coll arbitrary: coll')
  case Nil
  then show ?case by simp
next
  case (Cons x xs)
  show ?case
  proof (cases "p x")
    case True
    with Cons.prems(1) obtain x' where x': "f x = Inr x'" "coll' = x' # xs"
      by (auto split: sum.splits)
    from Cons.prems(2) have "stored x" by simp
    from assms(2) [OF x'(1) this] Cons.prems(2) x'(2) show ?thesis by simp
  next
    case False
    with Cons.prems(1) obtain xs' where xs': "update_first p f xs = Inr xs'" "coll' = x # xs'"
      by (auto split: sum.splits)
    from Cons.prems(2) have "list_all stored xs" by simp
    from Cons.IH [OF xs'(1) this] Cons.prems(2) xs'(2) show ?thesis by simp
  qed
qed

lemma update_set_wf:
  assumes "update_set i patch coll = Inr coll'" and "wf_coll coll"
  shows "wf_coll coll'"
proof -
  from assms(1) have u: "update_first (has_id i) (modify_set patch) coll = Inr coll'"
    by (simp add: update_set_def)
  from assms(2) have "list_all stored coll" by (simp add: wf_coll_def)
  from update_first_wf [OF u modify_set_stored this] assms(2) show ?thesis
    by (simp add: wf_coll_def)
qed

lemma remove_first_wf: "wf_coll coll \<Longrightarrow> wf_coll (remove_first p coll)"
proof (induction coll)
  case Nil
  then show ?case by simp
next
  case (Cons x xs)
  then have "wf_coll xs" by (simp add: wf_coll_def)
  with Cons have IH: "wf_coll (remove_first p xs)" by simp
  have "set (remove_first q ys) \<subseteq> set ys" for q and ys :: "doc list"
    by (induction ys) auto
  then have "(\<lambda>d. map_of d ''_id'') ` set (remove_first p xs) \<subseteq> (\<lambda>d. map_of d ''_id'') ` set xs"
    by blast
  with Cons.prems IH \<open>wf_coll xs\<close> show ?case by (auto simp: wf_coll_def)
qed

lemma insert_doc_wf:
  assumes "insert_doc n d coll = Inr (coll', d')" and "map_of d ''_id'' = None" and "wf_coll coll"
  shows "wf_coll coll'"
proof -
  note ins = insert_doc_Inr [OF assms(1,2)]
  from ins(2) assms(2) have idv: "map_of d' ''_id'' = Some (JStr n)"
    by (simp only: map_of_inserted) simp
  with ins(4) have "stored d'" by (simp add: stored_def string_id_def)
  moreover have "map_of d' ''_id'' \<notin> (\<lambda>d. map_of d ''_id'') ` set coll"
  proof
    assume "map_of d' ''_id'' \<in> (\<lambda>d. map_of d ''_id'') ` set coll"
    then obtain x where x: "x \<in> set coll" "map_of x ''_id'' = Some (JStr n)"
      unfolding idv by (auto simp: image_iff)
    from x(2) have "JStr n \<in> set (index_keys (map_of x ''_id''))" by simp
    from this x(1) have "id_taken (JStr n) coll" unfolding id_taken_def list_ex_iff by (rule bexI)
    with ins(3) show False by simp
  qed
  ultimately show ?thesis using assms(3) ins(1) by (simp add: wf_coll_def)
qed

lemma handle_wf:
  assumes "wf_coll (shipments st)"
  shows "wf_coll (shipments (state_after st (handle e a st r)))"
proof -
  have shipment_handlers:
    "wf_coll (shipments (state_after st (post_shipment e st b)))"
    "wf_coll (shipments (state_after st (patch_shipment e st i b)))"
    "wf_coll (shipments (state_after st (delete_shipment st i)))"
    "wf_coll (shipments (state_after st (post_event e st i b)))"
    "wf_coll (shipments (state_after st (delete_event e st i eventId)))"
    for b i eventId
  proof -
    show "wf_coll (shipments (state_after st (post_shipment e st b)))"
      using assms insert_doc_wf [OF _ new_shipment_fields(4) assms]
      by (auto simp: post_shipment_def state_after_def split: sum.splits)
    show "wf_coll (shipments (state_after st (patch_shipment e st i b)))"
      using assms update_set_wf [OF _ assms]
      by (auto simp: patch_shipment_def state_after_def split: sum.splits)
    show "wf_coll (shipments (state_after st (delete_shipment st i)))"
      using remove_first_wf [OF assms] by (simp add: delete_shipment_def state_after_def)
    show "wf_coll (shipments (state_after st (post_event e st i b)))"
      using assms update_set_wf [OF _ assms]
      by (auto simp: post_event_def state_after_def Let_def split: sum.splits option.splits)
    show "wf_coll (shipments (state_after st (delete_event e st i eventId)))"
      using assms update_set_wf [OF _ assms]
      by (auto simp: delete_event_def state_after_def split: sum.splits option.splits)
  qed
  have other_handlers:
    "shipments (state_after st (register e st b)) = shipments st"
    "shipments (state_after st (post_quote e st b)) = shipments st"
    "shipments (state_after st (patch_quote st i b)) = shipments st"
    "shipments (state_after st (delete_quote st i)) = shipments st"
    for b i
    by (auto simp: register_def post_quote_def patch_quote_def delete_quote_def state_after_def
        Let_def split: sum.splits option.splits json.splits)
  have guarded: "wf_coll (shipments (state_after st (protected e a st h)))"
    if "wf_coll (shipments (state_after st h))" for h
    using that assms by (simp add: protected_def state_after_def split: option.splits)
  show ?thesis
    using assms
    by (cases r)
       (simp_all add: shipment_handlers other_handlers login_state track_state guarded)
qed

lemma run_wf: "wf_coll (shipments st) \<Longrightarrow> wf_coll (shipments (run st rs))"
proof (induction rs arbitrary: st)
  case Nil
  then show ?case by simp
next
  case (Cons x rs)
  obtain e a r where x: "x = (e, a, r)" by (cases x)
  from Cons.IH [OF handle_wf [OF Cons.prems, of e a r]] show ?case by (simp add: x)
qed


end
